theory Spec2Isabelle
  imports Main "HOL-Library.Word"
begin

section \<open>Data model\<close>

text \<open>
  The development follows \<^verbatim>\<open>utilities/transactions/write_prepared_txn.cc\<close>:
  \<^verbatim>\<open>Get\<close>, \<^verbatim>\<open>PrepareInternal\<close>, \<^verbatim>\<open>CommitInternal\<close>,
  \<^verbatim>\<open>RollbackInternal\<close> with its \<^verbatim>\<open>RollbackWriteBatchBuilder\<close>, and
  \<^verbatim>\<open>ValidateSnapshot\<close>. Each function takes the transaction object and the trace of
  the calls made so far and gives back how it ended, the object and the trace as it left
  them. The logging macros change nothing that is modelled and are left out.
  Sequence numbers are \<^verbatim>\<open>uint64_t\<close>, column family ids \<^verbatim>\<open>uint32_t\<close>, and a
  \<^verbatim>\<open>Slice\<close> is the byte string it points to.
\<close>

type_synonym SequenceNumber = "64 word"
type_synonym ColumnFamilyId = "32 word"
type_synonym Slice = string

text \<open>
  Modelled from the spec: \<^verbatim>\<open>rocksdb/status.h\<close> is not part of the sources. A status
  is a code with a message; the file under study only builds \<^verbatim>\<open>Status::OK()\<close> and
  \<^verbatim>\<open>Status::InvalidArgument()\<close> and only asks \<^verbatim>\<open>ok()\<close> and
  \<^verbatim>\<open>IsNotFound()\<close>.
\<close>

datatype Code =
    kOk | kNotFound | kCorruption | kNotSupported | kInvalidArgument | kIOError
  | kMergeInProgress | kIncomplete | kShutdownInProgress | kTimedOut | kAborted
  | kBusy | kExpired | kTryAgain

datatype Status = Status (status_code: Code) (status_msg: string)

definition OK :: Status where
  "OK = Status kOk []"

definition InvalidArgument :: Status where
  "InvalidArgument = Status kInvalidArgument []"

definition ok :: "Status \<Rightarrow> bool" where
  "ok s = (status_code s = kOk)"

definition IsNotFound :: "Status \<Rightarrow> bool" where
  "IsNotFound s = (status_code s = kNotFound)"

text \<open>
  How a call ends. \<^verbatim>\<open>assert\<close> aborts the process when assertions are compiled in
  and is empty under \<^verbatim>\<open>NDEBUG\<close>; both builds are modelled, the build being a field
  of the environment below. Dereferencing a null pointer is a branch of its own.
\<close>

datatype Outcome = AssertionFailed | NullDereference | Returned Status

text \<open>
  Modelled from the spec: the write batch encoding (\<^verbatim>\<open>db/write_batch.cc\<close>) is not
  part of the sources. A batch is the ordered sequence of its records: the four keyed
  mutations, a log-data blob, and the markers begin-prepare, end-prepare(name,
  write-after-commit), commit(name), rollback(name) and noop.
\<close>

datatype Record =
    Rec_Put ColumnFamilyId Slice Slice
  | Rec_Delete ColumnFamilyId Slice
  | Rec_SingleDelete ColumnFamilyId Slice
  | Rec_Merge ColumnFamilyId Slice Slice
  | Rec_LogData Slice
  | Rec_Noop
  | Rec_BeginPrepare
  | Rec_EndPrepare Slice bool
  | Rec_Commit Slice
  | Rec_Rollback Slice

type_synonym WriteBatch = "Record list"

fun is_mutation :: "Record \<Rightarrow> bool" where
  "is_mutation (Rec_Put cf k v) = True"
| "is_mutation (Rec_Delete cf k) = True"
| "is_mutation (Rec_SingleDelete cf k) = True"
| "is_mutation (Rec_Merge cf k v) = True"
| "is_mutation r = False"

text \<open>
  Modelled from the spec: \<^verbatim>\<open>WriteBatch::Count\<close>, the number of keyed mutations of
  a batch (``\<^verbatim>\<open>commit_time_batch\<close> is empty'' is \<^verbatim>\<open>Count() == 0\<close>); markers
  and log data are not counted.
\<close>

definition Count :: "WriteBatch \<Rightarrow> nat" where
  "Count b = length (filter is_mutation b)"

text \<open>
  Modelled from the spec: the operations of \<^verbatim>\<open>WriteBatch\<close> and
  \<^verbatim>\<open>WriteBatchInternal\<close> that the file calls; each appends one record. The batches
  built in this file are default constructed (no size limit), so \<^verbatim>\<open>Put\<close> and
  \<^verbatim>\<open>Delete\<close> answer OK, as the assertions after them say.
\<close>

definition WriteBatch_Put :: "WriteBatch \<Rightarrow> ColumnFamilyId \<Rightarrow> Slice \<Rightarrow> Slice \<Rightarrow> Status \<times> WriteBatch" where
  "WriteBatch_Put b cf key val = (OK, b @ [Rec_Put cf key val])"

definition WriteBatch_Delete :: "WriteBatch \<Rightarrow> ColumnFamilyId \<Rightarrow> Slice \<Rightarrow> Status \<times> WriteBatch" where
  "WriteBatch_Delete b cf key = (OK, b @ [Rec_Delete cf key])"

definition PutLogData :: "WriteBatch \<Rightarrow> Slice \<Rightarrow> WriteBatch" where
  "PutLogData b blob = b @ [Rec_LogData blob]"

definition InsertNoop :: "WriteBatch \<Rightarrow> WriteBatch" where
  "InsertNoop b = b @ [Rec_Noop]"

definition MarkEndPrepare_batch :: "WriteBatch \<Rightarrow> Slice \<Rightarrow> bool \<Rightarrow> WriteBatch" where
  "MarkEndPrepare_batch b xid write_after_commit = b @ [Rec_EndPrepare xid write_after_commit]"

definition MarkCommit_batch :: "WriteBatch \<Rightarrow> Slice \<Rightarrow> WriteBatch" where
  "MarkCommit_batch b xid = b @ [Rec_Commit xid]"

definition MarkRollback_batch :: "WriteBatch \<Rightarrow> Slice \<Rightarrow> WriteBatch" where
  "MarkRollback_batch b xid = b @ [Rec_Rollback xid]"

text \<open>
  \<^verbatim>\<open>WriteBatchWithIndex\<close>: the batch and what \<^verbatim>\<open>HasDuplicateKeys()\<close> answers
  (the index that decides it is outside this file).
\<close>

record WriteBatchWithIndex =
  GetWriteBatch :: WriteBatch
  HasDuplicateKeys :: bool

record WriteOptions =
  disableWAL :: bool

datatype Snapshot = Snapshot (GetSequenceNumber: SequenceNumber)

record ReadOptions =
  snapshot :: "Snapshot option"

text \<open>\<^verbatim>\<open>WritePreparedTxnReadCallback(wpt_db_, snap_seq)\<close>: the visibility bound it carries.\<close>

datatype ReadCallback = WritePreparedTxnReadCallback (snap_seq_of: SequenceNumber)

text \<open>
  \<^verbatim>\<open>WritePreparedCommitEntryPreReleaseCallback(wpt_db_, db_impl_, prep_seq,
  prep_batch_cnt, data_batch_cnt [, prep_heap_skipped])\<close>: the arguments it is built
  with; the last is \<open>None\<close> where the call leaves it to the constructor's default.
\<close>

datatype PreReleaseCallback =
  WritePreparedCommitEntryPreReleaseCallback
    (prep_seq_of: SequenceNumber) (prep_batch_cnt_of: nat) (data_batch_cnt_of: nat)
    (prep_heap_skipped_of: "bool option")

text \<open>The arguments of one \<^verbatim>\<open>DBImpl::WriteImpl\<close> call, in the order of the call.\<close>

record WriteCall =
  wc_write_options :: WriteOptions
  wc_my_batch :: WriteBatch
  wc_callback :: "unit option"
  wc_log_used :: bool
  wc_log_ref :: "64 word"
  wc_disable_memtable :: bool
  wc_seq_used :: SequenceNumber
  wc_batch_cnt :: nat
  wc_pre_release_callback :: "PreReleaseCallback option"

text \<open>
  What \<^verbatim>\<open>WriteImpl\<close> gives back: its status and what it stored through the
  \<^verbatim>\<open>seq_used\<close> and \<^verbatim>\<open>log_used\<close> pointers (\<open>None\<close>: left as it was).
\<close>

record WriteResult =
  wr_status :: Status
  wr_seq_used :: "SequenceNumber option"
  wr_log_used :: "64 word option"

text \<open>
  Every call that leaves the transaction object is an event; a run is described by the
  events it issues, oldest first.
\<close>

datatype Event =
    EvWriteImpl WriteCall
  | EvGetImpl ReadOptions ColumnFamilyId Slice ReadCallback
  | EvGetFromBatchAndDB ReadOptions "ColumnFamilyId option" Slice ReadCallback
  | EvAddPrepared SequenceNumber
  | EvRollbackPrepared SequenceNumber SequenceNumber
  | EvSetAsLastestPersistentState WriteBatch
  | EvSubBatchCounter WriteBatch
  | EvCheckKeyForConflicts ColumnFamilyId Slice SequenceNumber bool ReadCallback

type_synonym Trace = "Event list"

text \<open>
  The collaborators of the file, none of which is part of the sources, are parameters:
  the constant \<^verbatim>\<open>kMaxSequenceNumber\<close>, the build (assertions compiled in or not),
  \<^verbatim>\<open>immutable_db_options().two_write_queues\<close>, the default column family, the
  strict order \<^verbatim>\<open>SetComparator(comparators_[cf])\<close> of each column family, and the
  answers of the engine. An answer may depend on everything that happened before (the
  trace so far) and on the arguments of the call. \<open>BatchCount\<close> is
  \<^verbatim>\<open>counter.BatchCount()\<close> of a \<^verbatim>\<open>SubBatchCounter\<close> after the batch has been
  iterated with it.
\<close>

record Env =
  kMaxSequenceNumber :: SequenceNumber
  asserts_on :: bool
  two_write_queues :: bool
  DefaultColumnFamily :: ColumnFamilyId
  SetComparator :: "ColumnFamilyId \<Rightarrow> Slice \<Rightarrow> Slice \<Rightarrow> bool"
  BatchCount :: "WriteBatch \<Rightarrow> nat"
  WriteImpl :: "Trace \<Rightarrow> WriteCall \<Rightarrow> WriteResult"
  GetImpl :: "Trace \<Rightarrow> ReadOptions \<Rightarrow> ColumnFamilyId \<Rightarrow> Slice \<Rightarrow> ReadCallback \<Rightarrow> Status \<times> Slice"
  GetFromBatchAndDB ::
    "Trace \<Rightarrow> WriteBatchWithIndex \<Rightarrow> ReadOptions \<Rightarrow> ColumnFamilyId option \<Rightarrow> Slice \<Rightarrow> ReadCallback \<Rightarrow> Status \<times> Slice"
  CheckKeyForConflicts ::
    "Trace \<Rightarrow> ColumnFamilyId \<Rightarrow> Slice \<Rightarrow> SequenceNumber \<Rightarrow> bool \<Rightarrow> ReadCallback \<Rightarrow> Status"

text \<open>
  Modelled from the spec: the transaction states (declared with
  \<^verbatim>\<open>PessimisticTransaction\<close>, outside the sources).
\<close>

datatype TransactionState = Started | Prepared | Committed | RolledBack

text \<open>
  The fields of the transaction object that the file reads or writes. A trailing
  underscore is not a name here: \<^verbatim>\<open>id_\<close>, \<^verbatim>\<open>name_\<close>,
  \<^verbatim>\<open>write_options_\<close>, \<^verbatim>\<open>write_batch_\<close> and \<^verbatim>\<open>snapshot_\<close> carry the prefix
  \<open>txn_\<close> instead, the other fields drop the underscore.
\<close>

record WritePreparedTxn =
  txn_id :: SequenceNumber
  txn_name :: Slice
  txn_state :: TransactionState
  txn_write_options :: WriteOptions
  txn_write_batch :: WriteBatchWithIndex
  commit_time_batch :: WriteBatch
  log_number :: "64 word"
  prepare_batch_cnt :: nat
  use_only_the_last_commit_time_batch_for_recovery :: bool
  txn_snapshot :: "Snapshot option"

definition GetId :: "WritePreparedTxn \<Rightarrow> SequenceNumber" where
  "GetId txn = txn_id txn"

definition SetId :: "SequenceNumber \<Rightarrow> WritePreparedTxn \<Rightarrow> WritePreparedTxn" where
  "SetId seq txn = txn\<lparr>txn_id := seq\<rparr>"

section \<open>Get\<close>

definition Get ::
  "Env \<Rightarrow> WritePreparedTxn \<Rightarrow> ReadOptions \<Rightarrow> ColumnFamilyId option \<Rightarrow> Slice \<Rightarrow> Trace
    \<Rightarrow> Status \<times> Slice \<times> Trace" where
  "Get env txn read_options column_family key w =
     (let snap = snapshot read_options;
          snap_seq = (case snap of Some sn \<Rightarrow> GetSequenceNumber sn
                      | None \<Rightarrow> kMaxSequenceNumber env);
          callback = WritePreparedTxnReadCallback snap_seq;
          r = GetFromBatchAndDB env w (txn_write_batch txn) read_options column_family key callback
      in (fst r, snd r, w @ [EvGetFromBatchAndDB read_options column_family key callback]))"

section \<open>PrepareInternal\<close>

text \<open>
  Modelled from the spec: the status of \<^verbatim>\<open>Iterate(&counter)\<close> for a
  \<^verbatim>\<open>SubBatchCounter\<close>. The traversal fails only on a malformed batch, and a
  sequence of records is never malformed.
\<close>

definition Iterate_counter :: "WriteBatch \<Rightarrow> Status" where
  "Iterate_counter b = OK"

text \<open>
  \<^verbatim>\<open>assert(c)\<close> in front of the rest of a function: with assertions compiled in,
  a false \<open>c\<close> ends the run where the trace and the object stand.
\<close>

definition assert_fails :: "Env \<Rightarrow> bool \<Rightarrow> bool" where
  "assert_fails env c = (asserts_on env \<and> \<not> c)"

definition seq_after :: "SequenceNumber \<Rightarrow> WriteResult \<Rightarrow> SequenceNumber" where
  "seq_after seq_used r = (case wr_seq_used r of None \<Rightarrow> seq_used | Some v \<Rightarrow> v)"

definition log_after :: "64 word \<Rightarrow> WriteResult \<Rightarrow> 64 word" where
  "log_after log_used r = (case wr_log_used r of None \<Rightarrow> log_used | Some v \<Rightarrow> v)"

definition PrepareInternal ::
  "Env \<Rightarrow> WritePreparedTxn \<Rightarrow> Trace \<Rightarrow> Outcome \<times> WritePreparedTxn \<times> Trace" where
  "PrepareInternal env txn w =
     (let write_options = (txn_write_options txn)\<lparr>disableWAL := False\<rparr>;
          WRITE_AFTER_COMMIT = True;
          batch = MarkEndPrepare_batch (GetWriteBatch (txn_write_batch txn)) (txn_name txn)
                    (\<not> WRITE_AFTER_COMMIT);
          txn1 = txn\<lparr>txn_write_batch := (txn_write_batch txn)\<lparr>GetWriteBatch := batch\<rparr>\<rparr>;
          DISABLE_MEMTABLE = True;
          seq_used = kMaxSequenceNumber env;
          txn2 = txn1\<lparr>prepare_batch_cnt := 1\<rparr>;
          dup = HasDuplicateKeys (txn_write_batch txn2);
          w1 = (if dup then w @ [EvSubBatchCounter batch] else w)
      in if dup \<and> assert_fails env (ok (Iterate_counter batch)) then (AssertionFailed, txn2, w1)
         else
           let txn3 = (if dup then txn2\<lparr>prepare_batch_cnt := BatchCount env batch\<rparr>
                       else txn2);
               call = \<lparr>wc_write_options = write_options, wc_my_batch = batch,
                        wc_callback = None, wc_log_used = True, wc_log_ref = 0,
                        wc_disable_memtable = (\<not> DISABLE_MEMTABLE), wc_seq_used = seq_used,
                        wc_batch_cnt = prepare_batch_cnt txn3,
                        wc_pre_release_callback = None\<rparr>;
               r = WriteImpl env w1 call;
               w2 = w1 @ [EvWriteImpl call];
               s = wr_status r;
               seq_used = seq_after seq_used r;
               txn4 = txn3\<lparr>log_number := log_after (log_number txn3) r\<rparr>
           in if assert_fails env (\<not> ok s \<or> seq_used \<noteq> kMaxSequenceNumber env)
              then (AssertionFailed, txn4, w2)
              else
                let prepare_seq = seq_used;
                    txn5 = SetId prepare_seq txn4
                in if ok s then (Returned s, txn5, w2 @ [EvAddPrepared prepare_seq])
                   else (Returned s, txn5, w2))"

section \<open>CommitInternal\<close>

definition CommitInternal ::
  "Env \<Rightarrow> WritePreparedTxn \<Rightarrow> Trace \<Rightarrow> Outcome \<times> WritePreparedTxn \<times> Trace" where
  "CommitInternal env txn w =
     (let empty = (Count (commit_time_batch txn) = 0);
          working_batch = MarkCommit_batch (commit_time_batch txn) (txn_name txn);
          txn1 = txn\<lparr>commit_time_batch := working_batch\<rparr>;
          for_recovery = use_only_the_last_commit_time_batch_for_recovery txn1;
          w1 = (if \<not> empty \<and> for_recovery
                then w @ [EvSetAsLastestPersistentState working_batch] else w);
          prepare_seq = GetId txn1;
          includes_data = (\<not> empty \<and> \<not> for_recovery)
      in if assert_fails env (prepare_batch_cnt txn1 \<noteq> 0) then (AssertionFailed, txn1, w1)
         else
           let w2 = (if includes_data then w1 @ [EvSubBatchCounter working_batch] else w1)
           in if includes_data \<and> assert_fails env (ok (Iterate_counter working_batch))
              then (AssertionFailed, txn1, w2)
              else
                let commit_batch_cnt = (if includes_data then BatchCount env working_batch
                                        else 0);
                    update_commit_map = WritePreparedCommitEntryPreReleaseCallback
                        prepare_seq (prepare_batch_cnt txn1) commit_batch_cnt None;
                    disable_memtable = (\<not> includes_data);
                    seq_used = kMaxSequenceNumber env;
                    zero_log_number = 0;
                    batch_cnt = (if commit_batch_cnt \<noteq> 0 then commit_batch_cnt else 1);
                    call = \<lparr>wc_write_options = txn_write_options txn1,
                             wc_my_batch = working_batch, wc_callback = None,
                             wc_log_used = False, wc_log_ref = zero_log_number,
                             wc_disable_memtable = disable_memtable, wc_seq_used = seq_used,
                             wc_batch_cnt = batch_cnt,
                             wc_pre_release_callback = Some update_commit_map\<rparr>;
                    r = WriteImpl env w2 call;
                    w3 = w2 @ [EvWriteImpl call];
                    s = wr_status r;
                    seq_used = seq_after seq_used r
                in if assert_fails env (\<not> ok s \<or> seq_used \<noteq> kMaxSequenceNumber env)
                   then (AssertionFailed, txn1, w3)
                   else (Returned s, txn1, w3))"

section \<open>RollbackInternal\<close>

subsection \<open>The handler that builds the rollback batch\<close>

text \<open>
  \<^verbatim>\<open>CFKeys = std::set<Slice, SetComparator>\<close>. Only \<^verbatim>\<open>insert\<close> and
  \<^verbatim>\<open>size\<close> are used, so the set is kept as the list of its elements in the order of
  their insertion. For a strict weak order, which \<^verbatim>\<open>std::set\<close> requires,
  \<^verbatim>\<open>insert\<close> adds the key unless an element equivalent to it under the order
  (neither is less than the other) is there already, and says whether it added it.
\<close>

type_synonym CFKeys = "Slice list"

definition equiv_under :: "(Slice \<Rightarrow> Slice \<Rightarrow> bool) \<Rightarrow> Slice \<Rightarrow> Slice \<Rightarrow> bool" where
  "equiv_under lt a b = (\<not> lt a b \<and> \<not> lt b a)"

definition CFKeys_insert :: "(Slice \<Rightarrow> Slice \<Rightarrow> bool) \<Rightarrow> Slice \<Rightarrow> CFKeys \<Rightarrow> CFKeys \<times> bool" where
  "CFKeys_insert lt key cf_keys =
     (if list_ex (equiv_under lt key) cf_keys then (cf_keys, False)
      else (cf_keys @ [key], True))"

text \<open>
  \<^verbatim>\<open>struct RollbackWriteBatchBuilder\<close>. \<^verbatim>\<open>keys_\<close> is a
  \<^verbatim>\<open>std::map<uint32_t, CFKeys>\<close>; a column family handle is identified with the id
  it is looked up by.
\<close>

record RollbackWriteBatchBuilder =
  roptions :: ReadOptions
  callback :: ReadCallback
  rollback_batch :: WriteBatch
  keys :: "ColumnFamilyId \<rightharpoonup> CFKeys"

definition RollbackWriteBatchBuilder_new ::
  "SequenceNumber \<Rightarrow> WriteBatch \<Rightarrow> RollbackWriteBatchBuilder" where
  "RollbackWriteBatchBuilder_new snap_seq dst_batch =
     \<lparr>roptions = \<lparr>snapshot = None\<rparr>, callback = WritePreparedTxnReadCallback snap_seq,
      rollback_batch = dst_batch, keys = Map.empty\<rparr>"

text \<open>
  \<^verbatim>\<open>keys_[cf]\<close>: \<^verbatim>\<open>operator[]\<close> of \<^verbatim>\<open>std::map\<close> gives the set stored for
  \<open>cf\<close>, an empty one where none was stored.
\<close>

definition keys_at :: "RollbackWriteBatchBuilder \<Rightarrow> ColumnFamilyId \<Rightarrow> CFKeys" where
  "keys_at h cf = (case keys h cf of None \<Rightarrow> [] | Some ks \<Rightarrow> ks)"

text \<open>
  \<^verbatim>\<open>Rollback(cf, key)\<close>. An empty set is given the order of its column family
  before the insertion, so every insertion into the set of \<open>cf\<close> uses
  \<^verbatim>\<open>SetComparator(comparators_[cf])\<close>.
\<close>

definition Rollback ::
  "Env \<Rightarrow> ColumnFamilyId \<Rightarrow> Slice \<Rightarrow> RollbackWriteBatchBuilder \<Rightarrow> Trace
    \<Rightarrow> Outcome \<times> RollbackWriteBatchBuilder \<times> Trace" where
  "Rollback env cf key h w =
     (let s = OK;
          cf_keys = keys_at h cf;
          it = CFKeys_insert (SetComparator env cf) key cf_keys;
          h1 = h\<lparr>keys := (keys h)(cf \<mapsto> fst it)\<rparr>
      in if snd it = False then (Returned s, h1, w)
         else
           let cf_handle = cf;
               r = GetImpl env w (roptions h1) cf_handle key (callback h1);
               w1 = w @ [EvGetImpl (roptions h1) cf_handle key (callback h1)];
               s = fst r;
               pinnable_val = snd r
           in if assert_fails env (ok s \<or> IsNotFound s) then (AssertionFailed, h1, w1)
              else if ok s then
                (let p = WriteBatch_Put (rollback_batch h1) cf_handle key pinnable_val
                 in if assert_fails env (ok (fst p))
                    then (AssertionFailed, h1\<lparr>rollback_batch := snd p\<rparr>, w1)
                    else (Returned (fst p), h1\<lparr>rollback_batch := snd p\<rparr>, w1))
              else if IsNotFound s then
                (let d = WriteBatch_Delete (rollback_batch h1) cf_handle key
                 in if assert_fails env (ok (fst d))
                    then (AssertionFailed, h1\<lparr>rollback_batch := snd d\<rparr>, w1)
                    else (Returned (fst d), h1\<lparr>rollback_batch := snd d\<rparr>, w1))
              else (Returned s, h1, w1))"

definition PutCF ::
  "Env \<Rightarrow> ColumnFamilyId \<Rightarrow> Slice \<Rightarrow> Slice \<Rightarrow> RollbackWriteBatchBuilder \<Rightarrow> Trace
    \<Rightarrow> Outcome \<times> RollbackWriteBatchBuilder \<times> Trace" where
  "PutCF env cf key val h w = Rollback env cf key h w"

definition DeleteCF ::
  "Env \<Rightarrow> ColumnFamilyId \<Rightarrow> Slice \<Rightarrow> RollbackWriteBatchBuilder \<Rightarrow> Trace
    \<Rightarrow> Outcome \<times> RollbackWriteBatchBuilder \<times> Trace" where
  "DeleteCF env cf key h w = Rollback env cf key h w"

definition SingleDeleteCF ::
  "Env \<Rightarrow> ColumnFamilyId \<Rightarrow> Slice \<Rightarrow> RollbackWriteBatchBuilder \<Rightarrow> Trace
    \<Rightarrow> Outcome \<times> RollbackWriteBatchBuilder \<times> Trace" where
  "SingleDeleteCF env cf key h w = Rollback env cf key h w"

definition MergeCF ::
  "Env \<Rightarrow> ColumnFamilyId \<Rightarrow> Slice \<Rightarrow> Slice \<Rightarrow> RollbackWriteBatchBuilder \<Rightarrow> Trace
    \<Rightarrow> Outcome \<times> RollbackWriteBatchBuilder \<times> Trace" where
  "MergeCF env cf key val h w = Rollback env cf key h w"

definition MarkNoop ::
  "bool \<Rightarrow> RollbackWriteBatchBuilder \<Rightarrow> Trace \<Rightarrow> Outcome \<times> RollbackWriteBatchBuilder \<times> Trace" where
  "MarkNoop b h w = (Returned OK, h, w)"

definition MarkBeginPrepare ::
  "RollbackWriteBatchBuilder \<Rightarrow> Trace \<Rightarrow> Outcome \<times> RollbackWriteBatchBuilder \<times> Trace" where
  "MarkBeginPrepare h w = (Returned OK, h, w)"

definition MarkEndPrepare ::
  "Slice \<Rightarrow> RollbackWriteBatchBuilder \<Rightarrow> Trace \<Rightarrow> Outcome \<times> RollbackWriteBatchBuilder \<times> Trace" where
  "MarkEndPrepare xid h w = (Returned OK, h, w)"

definition MarkCommit ::
  "Slice \<Rightarrow> RollbackWriteBatchBuilder \<Rightarrow> Trace \<Rightarrow> Outcome \<times> RollbackWriteBatchBuilder \<times> Trace" where
  "MarkCommit xid h w = (Returned OK, h, w)"

definition MarkRollback ::
  "Slice \<Rightarrow> RollbackWriteBatchBuilder \<Rightarrow> Trace \<Rightarrow> Outcome \<times> RollbackWriteBatchBuilder \<times> Trace" where
  "MarkRollback xid h w = (Returned InvalidArgument, h, w)"

text \<open>
  Modelled from the spec: \<^verbatim>\<open>WriteBatch::Iterate\<close> (in \<^verbatim>\<open>db/write_batch.cc\<close>,
  outside the sources) traverses the batch once, hands each record to the handler's
  method for it and stops at the first status that is not OK, which it returns. A
  log-data record goes to \<^verbatim>\<open>LogData\<close>, which this handler inherits and which does
  nothing; the flag handed to \<^verbatim>\<open>MarkNoop\<close> is not used by this handler.
\<close>

fun dispatch ::
  "Env \<Rightarrow> Record \<Rightarrow> RollbackWriteBatchBuilder \<Rightarrow> Trace
    \<Rightarrow> Outcome \<times> RollbackWriteBatchBuilder \<times> Trace" where
  "dispatch env (Rec_Put cf key val) h w = PutCF env cf key val h w"
| "dispatch env (Rec_Delete cf key) h w = DeleteCF env cf key h w"
| "dispatch env (Rec_SingleDelete cf key) h w = SingleDeleteCF env cf key h w"
| "dispatch env (Rec_Merge cf key val) h w = MergeCF env cf key val h w"
| "dispatch env (Rec_LogData blob) h w = (Returned OK, h, w)"
| "dispatch env Rec_Noop h w = MarkNoop False h w"
| "dispatch env Rec_BeginPrepare h w = MarkBeginPrepare h w"
| "dispatch env (Rec_EndPrepare xid wac) h w = MarkEndPrepare xid h w"
| "dispatch env (Rec_Commit xid) h w = MarkCommit xid h w"
| "dispatch env (Rec_Rollback xid) h w = MarkRollback xid h w"

fun Iterate ::
  "Env \<Rightarrow> WriteBatch \<Rightarrow> RollbackWriteBatchBuilder \<Rightarrow> Trace
    \<Rightarrow> Outcome \<times> RollbackWriteBatchBuilder \<times> Trace" where
  "Iterate env [] h w = (Returned OK, h, w)"
| "Iterate env (r # rs) h w =
     (case dispatch env r h w of
        (Returned s, h1, w1) \<Rightarrow> if ok s then Iterate env rs h1 w1 else (Returned s, h1, w1)
      | (out, h1, w1) \<Rightarrow> (out, h1, w1))"

subsection \<open>The rollback itself\<close>

definition RollbackInternal ::
  "Env \<Rightarrow> WritePreparedTxn \<Rightarrow> Trace \<Rightarrow> Outcome \<times> Trace" where
  "RollbackInternal env txn w =
     (if assert_fails env (GetId txn \<noteq> kMaxSequenceNumber env) then (AssertionFailed, w)
      else if assert_fails env (GetId txn > 0) then (AssertionFailed, w)
      else
        let last_visible_txn = GetId txn - 1;
            rollback_handler = RollbackWriteBatchBuilder_new last_visible_txn [];
            it = Iterate env (GetWriteBatch (txn_write_batch txn)) rollback_handler w;
            w1 = snd (snd it)
        in case fst it of
             AssertionFailed \<Rightarrow> (AssertionFailed, w1)
           | NullDereference \<Rightarrow> (NullDereference, w1)
           | Returned s \<Rightarrow>
               if assert_fails env (ok s) then (AssertionFailed, w1)
               else if \<not> ok s then (Returned s, w1)
               else
                 let rollback_batch1 =
                       MarkRollback_batch (rollback_batch (fst (snd it))) (txn_name txn);
                     do_one_write = (\<not> two_write_queues env);
                     DISABLE_MEMTABLE = True;
                     no_log_ref = 0;
                     seq_used = kMaxSequenceNumber env;
                     ZERO_PREPARES = 0;
                     ONE_BATCH = 1;
                     update_commit_map = WritePreparedCommitEntryPreReleaseCallback
                         (kMaxSequenceNumber env) ZERO_PREPARES ONE_BATCH None;
                     call1 = \<lparr>wc_write_options = txn_write_options txn,
                              wc_my_batch = rollback_batch1, wc_callback = None,
                              wc_log_used = False, wc_log_ref = no_log_ref,
                              wc_disable_memtable = (\<not> DISABLE_MEMTABLE),
                              wc_seq_used = seq_used, wc_batch_cnt = ONE_BATCH,
                              wc_pre_release_callback =
                                (if do_one_write then Some update_commit_map else None)\<rparr>;
                     r1 = WriteImpl env w1 call1;
                     w2 = w1 @ [EvWriteImpl call1];
                     s = wr_status r1;
                     seq_used = seq_after seq_used r1
                 in if assert_fails env (\<not> ok s \<or> seq_used \<noteq> kMaxSequenceNumber env)
                    then (AssertionFailed, w2)
                    else if \<not> ok s then (Returned s, w2)
                    else if do_one_write then
                      (let rollback_seq = seq_used
                       in (Returned s, w2 @ [EvRollbackPrepared (GetId txn) rollback_seq]))
                    else
                      let prepare_seq = seq_used;
                          ZERO_COMMITS = 0;
                          PREP_HEAP_SKIPPED = True;
                          update_commit_map_with_prepare =
                            WritePreparedCommitEntryPreReleaseCallback
                              prepare_seq ONE_BATCH ZERO_COMMITS (Some PREP_HEAP_SKIPPED);
                          empty_batch = InsertNoop (PutLogData [] []);
                          call2 = \<lparr>wc_write_options = txn_write_options txn,
                                   wc_my_batch = empty_batch, wc_callback = None,
                                   wc_log_used = False, wc_log_ref = no_log_ref,
                                   wc_disable_memtable = DISABLE_MEMTABLE,
                                   wc_seq_used = seq_used, wc_batch_cnt = ONE_BATCH,
                                   wc_pre_release_callback =
                                     Some update_commit_map_with_prepare\<rparr>;
                          r2 = WriteImpl env w2 call2;
                          w3 = w2 @ [EvWriteImpl call2];
                          s = wr_status r2;
                          seq_used = seq_after seq_used r2
                      in if assert_fails env (\<not> ok s \<or> seq_used \<noteq> kMaxSequenceNumber env)
                         then (AssertionFailed, w3)
                         else
                           let rollback_seq = seq_used
                           in if ok s
                              then (Returned s, w3 @ [EvRollbackPrepared (GetId txn) rollback_seq])
                              else (Returned s, w3))"

section \<open>ValidateSnapshot\<close>

text \<open>
  \<open>tracked_at_seq\<close> is passed by pointer: the function takes its value and gives back
  the value it leaves there. A null \<^verbatim>\<open>snapshot_\<close> fails the assertion, or is
  dereferenced where assertions are compiled out.
\<close>

definition ValidateSnapshot ::
  "Env \<Rightarrow> WritePreparedTxn \<Rightarrow> ColumnFamilyId option \<Rightarrow> Slice \<Rightarrow> SequenceNumber \<Rightarrow> Trace
    \<Rightarrow> Outcome \<times> SequenceNumber \<times> Trace" where
  "ValidateSnapshot env txn column_family key tracked_at_seq w =
     (case txn_snapshot txn of
        None \<Rightarrow> if asserts_on env then (AssertionFailed, tracked_at_seq, w)
                else (NullDereference, tracked_at_seq, w)
      | Some sn \<Rightarrow>
          let snap_seq = GetSequenceNumber sn
          in if tracked_at_seq \<le> snap_seq then (Returned OK, tracked_at_seq, w)
             else
               let tracked_at_seq1 = snap_seq;
                   cfh = (case column_family of Some c \<Rightarrow> c
                          | None \<Rightarrow> DefaultColumnFamily env);
                   snap_checker = WritePreparedTxnReadCallback snap_seq;
                   s = CheckKeyForConflicts env w cfh key snap_seq False snap_checker
               in (Returned s, tracked_at_seq1,
                   w @ [EvCheckKeyForConflicts cfh key snap_seq False snap_checker]))"

section \<open>Observing a run\<close>

text \<open>
  What a trace holds of each kind of call, in the order of the calls, and the keys a
  batch mutates.
\<close>

fun write_of :: "Event \<Rightarrow> WriteCall list" where
  "write_of (EvWriteImpl c) = [c]"
| "write_of e = []"

fun read_of :: "Event \<Rightarrow> (ColumnFamilyId \<times> Slice) list" where
  "read_of (EvGetImpl ro cf key cb) = [(cf, key)]"
| "read_of e = []"

fun add_prepared_of :: "Event \<Rightarrow> SequenceNumber list" where
  "add_prepared_of (EvAddPrepared seq) = [seq]"
| "add_prepared_of e = []"

fun rollback_prepared_of :: "Event \<Rightarrow> (SequenceNumber \<times> SequenceNumber) list" where
  "rollback_prepared_of (EvRollbackPrepared prep_seq rollback_seq) = [(prep_seq, rollback_seq)]"
| "rollback_prepared_of e = []"

fun persistent_state_of :: "Event \<Rightarrow> WriteBatch list" where
  "persistent_state_of (EvSetAsLastestPersistentState b) = [b]"
| "persistent_state_of e = []"

fun counter_run_of :: "Event \<Rightarrow> WriteBatch list" where
  "counter_run_of (EvSubBatchCounter b) = [b]"
| "counter_run_of e = []"

fun conflict_scan_of :: "Event \<Rightarrow> (ColumnFamilyId \<times> Slice) list" where
  "conflict_scan_of (EvCheckKeyForConflicts cf key seq cache_only cb) = [(cf, key)]"
| "conflict_scan_of e = []"

definition engine_writes :: "Trace \<Rightarrow> WriteCall list" where
  "engine_writes tr = concat (map write_of tr)"

definition engine_reads :: "Trace \<Rightarrow> (ColumnFamilyId \<times> Slice) list" where
  "engine_reads tr = concat (map read_of tr)"

definition AddPrepared_calls :: "Trace \<Rightarrow> SequenceNumber list" where
  "AddPrepared_calls tr = concat (map add_prepared_of tr)"

definition RollbackPrepared_calls :: "Trace \<Rightarrow> (SequenceNumber \<times> SequenceNumber) list" where
  "RollbackPrepared_calls tr = concat (map rollback_prepared_of tr)"

definition persistent_states :: "Trace \<Rightarrow> WriteBatch list" where
  "persistent_states tr = concat (map persistent_state_of tr)"

definition counter_runs :: "Trace \<Rightarrow> WriteBatch list" where
  "counter_runs tr = concat (map counter_run_of tr)"

definition conflict_scans :: "Trace \<Rightarrow> (ColumnFamilyId \<times> Slice) list" where
  "conflict_scans tr = concat (map conflict_scan_of tr)"

fun key_of :: "Record \<Rightarrow> (ColumnFamilyId \<times> Slice) list" where
  "key_of (Rec_Put cf key val) = [(cf, key)]"
| "key_of (Rec_Delete cf key) = [(cf, key)]"
| "key_of (Rec_SingleDelete cf key) = [(cf, key)]"
| "key_of (Rec_Merge cf key val) = [(cf, key)]"
| "key_of r = []"

definition keys_of :: "WriteBatch \<Rightarrow> (ColumnFamilyId \<times> Slice) list" where
  "keys_of b = concat (map key_of b)"


section \<open>The invariant of the traversal\<close>

text \<open>
  \<open>read_back\<close>: a record of the rollback batch is what a read issued after \<open>w\<close>
  answered: a \<^verbatim>\<open>Put\<close> of the value found, or a \<^verbatim>\<open>Delete\<close> where nothing was found.
  \<open>grows\<close> relates the handler and the trace before and after any number of handler
  calls: the trace gains reads only, all with the handler's options and callback; no
  pair is read twice, and a pair is read only when it enters the key sets; the rollback
  batch gains at most one record for each pair read, each of them read back.
\<close>

definition read_back :: "Env \<Rightarrow> Trace \<Rightarrow> ReadOptions \<Rightarrow> ReadCallback \<Rightarrow> Trace \<Rightarrow> Record \<Rightarrow> bool" where
  "read_back env w ro cb w' r =
     (\<exists>pre post cf key. w' = pre @ EvGetImpl ro cf key cb # post \<and> length w \<le> length pre
        \<and> ((ok (fst (GetImpl env pre ro cf key cb))
              \<and> r = Rec_Put cf key (snd (GetImpl env pre ro cf key cb)))
           \<or> (IsNotFound (fst (GetImpl env pre ro cf key cb)) \<and> r = Rec_Delete cf key)))"

definition grows ::
  "Env \<Rightarrow> RollbackWriteBatchBuilder \<Rightarrow> Trace \<Rightarrow> RollbackWriteBatchBuilder \<Rightarrow> Trace \<Rightarrow> bool" where
  "grows env h w h' w' =
     (\<exists>rs added. w' = w @ rs \<and> rollback_batch h' = rollback_batch h @ added
        \<and> roptions h' = roptions h \<and> callback h' = callback h
        \<and> (\<forall>cf. set (keys_at h cf) \<subseteq> set (keys_at h' cf))
        \<and> distinct (engine_reads rs)
        \<and> (\<forall>cf k. (cf, k) \<in> set (engine_reads rs) \<longrightarrow>
              k \<notin> set (keys_at h cf) \<and> k \<in> set (keys_at h' cf))
        \<and> distinct (keys_of added) \<and> set (keys_of added) \<subseteq> set (engine_reads rs)
        \<and> (\<forall>e \<in> set rs. \<exists>cf key. e = EvGetImpl (roptions h) cf key (callback h))
        \<and> (\<forall>r \<in> set added. read_back env w (roptions h) (callback h) w' r))"

section \<open>The read of the engine, as the spec describes it\<close>

text \<open>
  Modelled from the spec: \<^verbatim>\<open>DBImpl::GetImpl\<close> is outside the sources. The spec
  describes the read as \<^verbatim>\<open>read_at_floor(column_family, key, read_visibility_floor)
  -> (status, value | not_found)\<close> and a snapshot as ``an immutable read-time upper
  bound on visible sequence numbers''. A version is one write of a key at a sequence
  number: a value, or a deletion. A read under a bound sees the versions whose sequence
  number is at most the bound and answers with the one of the key (as the order of the
  column family identifies keys) that has the greatest sequence number: OK and its
  value, or not found when that version is a deletion or no version is visible.
\<close>

datatype Version =
  Version (ver_seq: SequenceNumber) (ver_cf: ColumnFamilyId) (ver_key: Slice)
    (ver_value: "Slice option")

fun latest :: "Env \<Rightarrow> Version list \<Rightarrow> ColumnFamilyId \<Rightarrow> Slice \<Rightarrow> Version option" where
  "latest env [] cf key = None"
| "latest env (v # vs) cf key =
     (if ver_cf v = cf \<and> equiv_under (SetComparator env cf) key (ver_key v)
      then (case latest env vs cf key of
              None \<Rightarrow> Some v
            | Some u \<Rightarrow> if ver_seq u \<le> ver_seq v then Some v else Some u)
      else latest env vs cf key)"

definition visible_at :: "SequenceNumber \<Rightarrow> Version list \<Rightarrow> Version list" where
  "visible_at bound store = filter (\<lambda>v. ver_seq v \<le> bound) store"

definition read_at_floor ::
  "Env \<Rightarrow> Version list \<Rightarrow> ColumnFamilyId \<Rightarrow> Slice \<Rightarrow> SequenceNumber \<Rightarrow> Status \<times> Slice" where
  "read_at_floor env store cf key bound =
     (case latest env (visible_at bound store) cf key of
        None \<Rightarrow> (Status kNotFound [], [])
      | Some v \<Rightarrow> (case ver_value v of
                    None \<Rightarrow> (Status kNotFound [], [])
                  | Some x \<Rightarrow> (OK, x)))"

text \<open>
  What the spec asks of a rollback for one pair, given the versions written before the
  transaction: ``restores K to its value immediately before the transaction began'',
  and a key that did not exist then is absent afterwards. This is the statement the
  rollback batch is compared with, not a part of the code.
\<close>

definition versions_before :: "SequenceNumber \<Rightarrow> Version list \<Rightarrow> Version list" where
  "versions_before seq store = filter (\<lambda>v. ver_seq v < seq) store"

definition restore :: "Env \<Rightarrow> Version list \<Rightarrow> ColumnFamilyId \<times> Slice \<Rightarrow> Record" where
  "restore env before p =
     (case latest env before (fst p) (snd p) of
        None \<Rightarrow> Rec_Delete (fst p) (snd p)
      | Some v \<Rightarrow> (case ver_value v of
                    None \<Rightarrow> Rec_Delete (fst p) (snd p)
                  | Some x \<Rightarrow> Rec_Put (fst p) (snd p) x))"

section \<open>A concrete engine and transaction\<close>

text \<open>
  The inputs of the examples. The engine answers its first write with \<open>st1\<close> and
  sequence number 101, every later write with \<open>st2\<close> and 102; key \<open>a\<close> holds
  \<open>old\<close>, key \<open>bb\<close> is not found, and reading any other key is an I/O error. Keys are
  ordered by their length. The transaction has id 5 and a snapshot at 10.
\<close>

definition example_engine :: "bool \<Rightarrow> bool \<Rightarrow> Status \<Rightarrow> Status \<Rightarrow> Env" where
  "example_engine asserts two st1 st2 =
     \<lparr>kMaxSequenceNumber = 72057594037927935,
      asserts_on = asserts,
      two_write_queues = two,
      DefaultColumnFamily = 0,
      SetComparator = (\<lambda>cf a b. length a < length b),
      BatchCount = (\<lambda>b. 2),
      WriteImpl = (\<lambda>tr call.
         \<lparr>wr_status = (if engine_writes tr = [] then st1 else st2),
          wr_seq_used = Some (if engine_writes tr = [] then 101 else 102),
          wr_log_used = Some 7\<rparr>),
      GetImpl = (\<lambda>tr ro cf key cb.
         if key = ''a'' then (OK, ''old'')
         else if key = ''bb'' then (Status kNotFound [], [])
         else (Status kIOError ''io'', [])),
      GetFromBatchAndDB = (\<lambda>tr wb ro cf key cb. (OK, ''v'')),
      CheckKeyForConflicts = (\<lambda>tr cf key seq cache_only cb. Status kBusy [])\<rparr>"

text \<open>
  An engine that reads as the spec describes, from the versions of a store, and a store
  in which key \<open>a\<close> was written at sequence number 3 and again, with key \<open>bb\<close>, at
  5, 6 and 7: the writes of the transaction with id 5.
\<close>

definition example_store_engine :: "bool \<Rightarrow> Version list \<Rightarrow> Env" where
  "example_store_engine asserts store =
     (example_engine asserts False OK OK)
       \<lparr>GetImpl := (\<lambda>tr ro cf key cb.
          read_at_floor (example_engine asserts False OK OK) store cf key (snap_seq_of cb))\<rparr>"

definition example_versions :: "Version list" where
  "example_versions =
     [Version 3 0 ''a'' (Some ''old''), Version 5 0 ''a'' (Some ''1''),
      Version 6 0 ''a'' (Some ''2''), Version 6 0 ''bb'' (Some ''x''),
      Version 7 0 ''a'' (Some ''3'')]"

definition example_txn :: "WriteBatch \<Rightarrow> bool \<Rightarrow> WriteBatch \<Rightarrow> bool \<Rightarrow> WritePreparedTxn" where
  "example_txn batch dup commit_batch for_recovery =
     \<lparr>txn_id = 5, txn_name = ''t1'', txn_state = Started,
      txn_write_options = \<lparr>disableWAL = True\<rparr>,
      txn_write_batch = \<lparr>GetWriteBatch = batch, HasDuplicateKeys = dup\<rparr>,
      commit_time_batch = commit_batch, log_number = 0, prepare_batch_cnt = 1,
      use_only_the_last_commit_time_batch_for_recovery = for_recovery,
      txn_snapshot = Some (Snapshot 10)\<rparr>"

section \<open>Get reads under the snapshot of its read options\<close>

text \<open>
  C10. For every \<^verbatim>\<open>Get\<close>, the read callback handed to
  \<^verbatim>\<open>GetFromBatchAndDB\<close> carries the sequence number of the snapshot of the read
  options when they hold one, and \<^verbatim>\<open>kMaxSequenceNumber\<close> when they hold none; the
  status returned is the one that call answers.
\<close>

theorem Get_visibility_bound:
  "snd (snd (Get env txn \<lparr>snapshot = Some sn\<rparr> column_family key w)) =
     w @ [EvGetFromBatchAndDB \<lparr>snapshot = Some sn\<rparr> column_family key
            (WritePreparedTxnReadCallback (GetSequenceNumber sn))]
   \<and> snd (snd (Get env txn \<lparr>snapshot = None\<rparr> column_family key w)) =
     w @ [EvGetFromBatchAndDB \<lparr>snapshot = None\<rparr> column_family key
            (WritePreparedTxnReadCallback (kMaxSequenceNumber env))]
   \<and> fst (Get env txn \<lparr>snapshot = Some sn\<rparr> column_family key w) =
     fst (GetFromBatchAndDB env w (txn_write_batch txn) \<lparr>snapshot = Some sn\<rparr> column_family key
            (WritePreparedTxnReadCallback (GetSequenceNumber sn)))
   \<and> fst (Get env txn \<lparr>snapshot = None\<rparr> column_family key w) =
     fst (GetFromBatchAndDB env w (txn_write_batch txn) \<lparr>snapshot = None\<rparr> column_family key
            (WritePreparedTxnReadCallback (kMaxSequenceNumber env)))"
  by (simp add: Get_def Let_def)

theorem Get_visibility_bound_witness:
  "snd (snd (Get (example_engine False False OK OK) (example_txn [] False [] False)
       \<lparr>snapshot = Some (Snapshot 7)\<rparr> None ''a'' [])) =
     [EvGetFromBatchAndDB \<lparr>snapshot = Some (Snapshot 7)\<rparr> None ''a''
        (WritePreparedTxnReadCallback 7)]
   \<and> snd (snd (Get (example_engine False False OK OK) (example_txn [] False [] False)
       \<lparr>snapshot = None\<rparr> None ''a'' [])) =
     [EvGetFromBatchAndDB \<lparr>snapshot = None\<rparr> None ''a''
        (WritePreparedTxnReadCallback 72057594037927935)]"
  using Get_visibility_bound [of "example_engine False False OK OK"
      "example_txn [] False [] False" "Snapshot 7" None "''a''" "[]"]
  by (simp add: example_engine_def)

section \<open>Markers in the batch to roll back\<close>

text \<open>
  C8. While the rollback batch is rebuilt, the handler answers OK to
  \<^verbatim>\<open>MarkCommit\<close>, \<^verbatim>\<open>MarkBeginPrepare\<close>, \<^verbatim>\<open>MarkEndPrepare\<close> and
  \<^verbatim>\<open>MarkNoop\<close> and leaves the rollback batch, the key sets and the trace as they
  were, so the traversal goes on as if the marker were not there; to
  \<^verbatim>\<open>MarkRollback\<close> it answers invalid argument, which ends the traversal with
  that status.
\<close>

theorem markers_in_source_batch:
  "MarkCommit xid h w = (Returned OK, h, w)
   \<and> MarkBeginPrepare h w = (Returned OK, h, w)
   \<and> MarkEndPrepare xid h w = (Returned OK, h, w)
   \<and> MarkNoop b h w = (Returned OK, h, w)
   \<and> MarkRollback xid h w = (Returned InvalidArgument, h, w)
   \<and> status_code InvalidArgument = kInvalidArgument
   \<and> Iterate env (Rec_Commit xid # rs) h w = Iterate env rs h w
   \<and> Iterate env (Rec_BeginPrepare # rs) h w = Iterate env rs h w
   \<and> Iterate env (Rec_EndPrepare xid wac # rs) h w = Iterate env rs h w
   \<and> Iterate env (Rec_Noop # rs) h w = Iterate env rs h w
   \<and> Iterate env (Rec_Rollback xid # rs) h w = (Returned InvalidArgument, h, w)"
  by (simp add: MarkCommit_def MarkBeginPrepare_def MarkEndPrepare_def MarkNoop_def
      MarkRollback_def InvalidArgument_def ok_def OK_def)

theorem markers_in_source_batch_witness:
  "Iterate (example_engine True False OK OK)
      [Rec_Commit ''t1'', Rec_Rollback ''t1'', Rec_Put 0 ''a'' ''x'']
      (RollbackWriteBatchBuilder_new 4 []) [] =
     (Returned (Status kInvalidArgument []), RollbackWriteBatchBuilder_new 4 [], [])
   \<and> Iterate (example_engine True False OK OK) [Rec_Noop] (RollbackWriteBatchBuilder_new 4 []) [] =
     (Returned (Status kOk []), RollbackWriteBatchBuilder_new 4 [], [])"
proof -
  let ?E = "example_engine True False OK OK"
  let ?h = "RollbackWriteBatchBuilder_new 4 []"
  note m1 = markers_in_source_batch [of "''t1''" ?h "[]" True ?E
      "[Rec_Rollback ''t1'', Rec_Put 0 ''a'' ''x'']" False]
  note m2 = markers_in_source_batch [of "''t1''" ?h "[]" True ?E "[Rec_Put 0 ''a'' ''x'']" False]
  note m3 = markers_in_source_batch [of "''t1''" ?h "[]" True ?E "[]" False]
  have a: "Iterate ?E [Rec_Commit ''t1'', Rec_Rollback ''t1'', Rec_Put 0 ''a'' ''x''] ?h [] =
           Iterate ?E [Rec_Rollback ''t1'', Rec_Put 0 ''a'' ''x''] ?h []"
    using m1 by blast
  have b: "Iterate ?E [Rec_Rollback ''t1'', Rec_Put 0 ''a'' ''x''] ?h [] =
           (Returned InvalidArgument, ?h, [])"
    using m2 by blast
  have c: "Iterate ?E [Rec_Noop] ?h [] = Iterate ?E [] ?h []"
    using m3 by blast
  show ?thesis
    by (simp only: a b c Iterate.simps(1)) (simp add: InvalidArgument_def OK_def)
qed

section \<open>What a read-back turns into\<close>

text \<open>
  C4, as the code has it. For a key that \<^verbatim>\<open>Rollback\<close> sees for the first time (the
  insertion into the key set of its column family succeeds), with \<open>g\<close> the answer of
  the read: not found appends a \<^verbatim>\<open>Delete\<close> of the key and the call answers OK;
  found appends a \<^verbatim>\<open>Put\<close> of the value read and the call answers OK; any other
  status leaves the rollback batch as it was, and is returned as it is where assertions
  are compiled out, while the call stops at
  \<^verbatim>\<open>assert(s.ok() || s.IsNotFound())\<close> where they are compiled in. One read is
  issued in each case.
\<close>

theorem Rollback_read_result:
  assumes "snd (CFKeys_insert (SetComparator env cf) key (keys_at h cf))"
  shows
    "let g = GetImpl env w (roptions h) cf key (callback h);
         res = Rollback env cf key h w;
         rb = rollback_batch (fst (snd res))
     in (IsNotFound (fst g) \<longrightarrow>
           fst res = Returned OK \<and> ok OK \<and> rb = rollback_batch h @ [Rec_Delete cf key])
      \<and> (ok (fst g) \<longrightarrow>
           fst res = Returned OK \<and> rb = rollback_batch h @ [Rec_Put cf key (snd g)])
      \<and> (\<not> ok (fst g) \<and> \<not> IsNotFound (fst g) \<longrightarrow>
           rb = rollback_batch h
         \<and> fst res = (if asserts_on env then AssertionFailed else Returned (fst g)))
      \<and> snd (snd res) = w @ [EvGetImpl (roptions h) cf key (callback h)]"
  using assms
  by (auto simp: Rollback_def Let_def CFKeys_insert_def assert_fails_def WriteBatch_Put_def
      WriteBatch_Delete_def ok_def OK_def IsNotFound_def)

theorem Rollback_read_result_witness:
  "fst (Rollback (example_engine False False OK OK) 0 ''bb'' (RollbackWriteBatchBuilder_new 4 []) [])
     = Returned (Status kOk [])
   \<and> rollback_batch (fst (snd (Rollback (example_engine False False OK OK) 0 ''bb''
        (RollbackWriteBatchBuilder_new 4 []) []))) = [Rec_Delete 0 ''bb'']
   \<and> rollback_batch (fst (snd (Rollback (example_engine False False OK OK) 0 ''a''
        (RollbackWriteBatchBuilder_new 4 []) []))) = [Rec_Put 0 ''a'' ''old'']
   \<and> fst (Rollback (example_engine False False OK OK) 0 ''ccc'' (RollbackWriteBatchBuilder_new 4 []) [])
     = Returned (Status kIOError ''io'')
   \<and> rollback_batch (fst (snd (Rollback (example_engine False False OK OK) 0 ''ccc''
        (RollbackWriteBatchBuilder_new 4 []) []))) = []
   \<and> fst (Rollback (example_engine True False OK OK) 0 ''ccc'' (RollbackWriteBatchBuilder_new 4 []) [])
     = AssertionFailed
   \<and> rollback_batch (fst (snd (Rollback (example_engine True False OK OK) 0 ''ccc''
        (RollbackWriteBatchBuilder_new 4 []) []))) = []"
  using Rollback_read_result [of "example_engine False False OK OK" 0 "''bb''"
      "RollbackWriteBatchBuilder_new 4 []" "[]"]
    Rollback_read_result [of "example_engine False False OK OK" 0 "''a''"
      "RollbackWriteBatchBuilder_new 4 []" "[]"]
    Rollback_read_result [of "example_engine False False OK OK" 0 "''ccc''"
      "RollbackWriteBatchBuilder_new 4 []" "[]"]
    Rollback_read_result [of "example_engine True False OK OK" 0 "''ccc''"
      "RollbackWriteBatchBuilder_new 4 []" "[]"]
  by (simp add: example_engine_def RollbackWriteBatchBuilder_new_def CFKeys_insert_def
      keys_at_def Let_def ok_def OK_def IsNotFound_def)

text \<open>
  C4, as the claim has it, fails where assertions are compiled in: the read of a key
  seen for the first time answers an I/O error, which is neither OK nor not found, and
  the call does not return that status but stops at the assertion.
\<close>

theorem Rollback_unexpected_status_counterexample:
  "asserts_on (example_engine True False OK OK)
   \<and> snd (CFKeys_insert (SetComparator (example_engine True False OK OK) 0) ''ccc''
        (keys_at (RollbackWriteBatchBuilder_new 4 []) 0))
   \<and> GetImpl (example_engine True False OK OK) [] \<lparr>snapshot = None\<rparr> 0 ''ccc''
        (WritePreparedTxnReadCallback 4) = (Status kIOError ''io'', [])
   \<and> fst (Rollback (example_engine True False OK OK) 0 ''ccc''
        (RollbackWriteBatchBuilder_new 4 []) []) = AssertionFailed
   \<and> fst (Rollback (example_engine True False OK OK) 0 ''ccc''
        (RollbackWriteBatchBuilder_new 4 []) []) \<noteq> Returned (Status kIOError ''io'')"
  by (simp add: Rollback_def example_engine_def RollbackWriteBatchBuilder_new_def
      CFKeys_insert_def keys_at_def Let_def assert_fails_def ok_def OK_def IsNotFound_def)

section \<open>ValidateSnapshot remembers what it has validated\<close>

text \<open>
  C9. With a floor \<open>tracked_at_seq\<close> that is at most the sequence number of the
  snapshot, \<^verbatim>\<open>ValidateSnapshot\<close> answers OK, leaves the floor and calls nothing.
  Otherwise it sets the floor to the snapshot's sequence number and returns what
  \<^verbatim>\<open>CheckKeyForConflicts\<close> answers. So of two calls for the same key, the second
  with the floor the first left and a snapshot that is not older, the second answers
  OK without a scan, and the two calls scan at most once.
\<close>

theorem ValidateSnapshot_memoized:
  assumes "txn_snapshot txn1 = Some sn1" and "txn_snapshot txn2 = Some sn2"
    and "GetSequenceNumber sn1 \<le> GetSequenceNumber sn2"
  shows
    "let cfh = (case column_family of Some c \<Rightarrow> c | None \<Rightarrow> DefaultColumnFamily env);
         snap_seq = GetSequenceNumber sn1;
         snap_checker = WritePreparedTxnReadCallback snap_seq;
         r1 = ValidateSnapshot env txn1 column_family key tracked_at_seq w;
         r2 = ValidateSnapshot env txn2 column_family key (fst (snd r1)) (snd (snd r1))
     in (tracked_at_seq \<le> snap_seq \<longrightarrow> r1 = (Returned OK, tracked_at_seq, w))
      \<and> (\<not> tracked_at_seq \<le> snap_seq \<longrightarrow>
           r1 = (Returned (CheckKeyForConflicts env w cfh key snap_seq False snap_checker),
                 snap_seq, w @ [EvCheckKeyForConflicts cfh key snap_seq False snap_checker]))
      \<and> r2 = (Returned OK, fst (snd r1), snd (snd r1))
      \<and> length (conflict_scans (drop (length w) (snd (snd r2)))) \<le> 1"
  using assms by (auto simp: ValidateSnapshot_def Let_def conflict_scans_def)

theorem ValidateSnapshot_memoized_witness:
  "ValidateSnapshot (example_engine True False OK OK) (example_txn [] False [] False)
      None ''a'' 72057594037927935 [] =
     (Returned (Status kBusy []), 10,
      [EvCheckKeyForConflicts 0 ''a'' 10 False (WritePreparedTxnReadCallback 10)])
   \<and> ValidateSnapshot (example_engine True False OK OK) (example_txn [] False [] False)
      None ''a'' 10 [EvCheckKeyForConflicts 0 ''a'' 10 False (WritePreparedTxnReadCallback 10)] =
     (Returned (Status kOk []), 10,
      [EvCheckKeyForConflicts 0 ''a'' 10 False (WritePreparedTxnReadCallback 10)])"
  using ValidateSnapshot_memoized [where ?txn1.0 = "example_txn [] False [] False"
      and ?sn1.0 = "Snapshot 10" and ?txn2.0 = "example_txn [] False [] False"
      and ?sn2.0 = "Snapshot 10" and column_family = None
      and env = "example_engine True False OK OK" and key = "''a''"
      and tracked_at_seq = 72057594037927935 and w = "[]"]
  by (auto simp: example_txn_def example_engine_def Let_def OK_def)

section \<open>PrepareInternal\<close>

text \<open>
  C5. \<open>call\<close> is the write \<^verbatim>\<open>PrepareInternal\<close> issues and \<open>s\<close> the status the
  engine answers it with. If \<open>s\<close> is not OK, \<^verbatim>\<open>PrepareInternal\<close> returns \<open>s\<close>
  itself and the write is the last thing it does: \<^verbatim>\<open>AddPrepared\<close> is not
  called. \<^verbatim>\<open>PrepareInternal\<close> never changes the state of the transaction, and
  whenever it calls \<^verbatim>\<open>AddPrepared\<close> the write has succeeded.
\<close>

theorem PrepareInternal_failed_write:
  "let batch = GetWriteBatch (txn_write_batch txn) @ [Rec_EndPrepare (txn_name txn) False];
       dup = HasDuplicateKeys (txn_write_batch txn);
       pre = (if dup then w @ [EvSubBatchCounter batch] else w);
       call = \<lparr>wc_write_options = (txn_write_options txn)\<lparr>disableWAL := False\<rparr>,
                wc_my_batch = batch, wc_callback = None, wc_log_used = True, wc_log_ref = 0,
                wc_disable_memtable = False, wc_seq_used = kMaxSequenceNumber env,
                wc_batch_cnt = (if dup then BatchCount env batch else 1),
                wc_pre_release_callback = None\<rparr>;
       s = wr_status (WriteImpl env pre call);
       res = PrepareInternal env txn w;
       new = drop (length w) (snd (snd res))
   in (\<not> ok s \<longrightarrow> fst res = Returned s \<and> snd (snd res) = pre @ [EvWriteImpl call]
                  \<and> AddPrepared_calls new = [])
    \<and> txn_state (fst (snd res)) = txn_state txn
    \<and> (AddPrepared_calls new \<noteq> [] \<longrightarrow> ok s \<and> fst res = Returned s)"
  by (auto simp: PrepareInternal_def Let_def assert_fails_def MarkEndPrepare_batch_def
      AddPrepared_calls_def SetId_def Iterate_counter_def ok_def OK_def)

theorem PrepareInternal_failed_write_witness:
  "fst (PrepareInternal (example_engine True False (Status kIOError ''disk'') OK)
         (example_txn [Rec_Put 0 ''a'' ''1''] False [] False) [])
     = Returned (Status kIOError ''disk'')
   \<and> AddPrepared_calls (snd (snd (PrepareInternal
         (example_engine True False (Status kIOError ''disk'') OK)
         (example_txn [Rec_Put 0 ''a'' ''1''] False [] False) []))) = []
   \<and> txn_state (fst (snd (PrepareInternal
         (example_engine True False (Status kIOError ''disk'') OK)
         (example_txn [Rec_Put 0 ''a'' ''1''] False [] False) []))) = Started"
  using PrepareInternal_failed_write [where
      txn = "example_txn [Rec_Put 0 ''a'' ''1''] False [] False" and w = "[]"
      and env = "example_engine True False (Status kIOError ''disk'') OK"]
  by (simp add: example_txn_def example_engine_def Let_def ok_def engine_writes_def
      AddPrepared_calls_def)

text \<open>
  C6. \<^verbatim>\<open>PrepareInternal\<close> leaves \<^verbatim>\<open>prepare_batch_cnt_\<close> at 1 and runs no
  \<^verbatim>\<open>SubBatchCounter\<close> when \<^verbatim>\<open>HasDuplicateKeys()\<close> is false; when it is true, it
  runs the counter once, over the batch with its end-of-prepare marker, and stores its
  \<^verbatim>\<open>BatchCount()\<close>. The count stored is the batch count of the prepare write.
\<close>

theorem PrepareInternal_sub_batch_count:
  "let batch = GetWriteBatch (txn_write_batch txn) @ [Rec_EndPrepare (txn_name txn) False];
       dup = HasDuplicateKeys (txn_write_batch txn);
       res = PrepareInternal env txn w;
       new = drop (length w) (snd (snd res))
   in (\<not> dup \<longrightarrow> prepare_batch_cnt (fst (snd res)) = 1 \<and> counter_runs new = [])
    \<and> (dup \<longrightarrow> prepare_batch_cnt (fst (snd res)) = BatchCount env batch
              \<and> counter_runs new = [batch])
    \<and> map wc_batch_cnt (engine_writes new) = [prepare_batch_cnt (fst (snd res))]"
  by (auto simp: PrepareInternal_def Let_def assert_fails_def MarkEndPrepare_batch_def
      counter_runs_def engine_writes_def SetId_def Iterate_counter_def ok_def OK_def)

theorem PrepareInternal_sub_batch_count_witness:
  "prepare_batch_cnt (fst (snd (PrepareInternal (example_engine True False OK OK)
       (example_txn [Rec_Put 0 ''a'' ''1'', Rec_Put 0 ''a'' ''2''] True [] False) []))) = 2
   \<and> counter_runs (snd (snd (PrepareInternal (example_engine True False OK OK)
       (example_txn [Rec_Put 0 ''a'' ''1'', Rec_Put 0 ''a'' ''2''] True [] False) []))) =
       [[Rec_Put 0 ''a'' ''1'', Rec_Put 0 ''a'' ''2'', Rec_EndPrepare ''t1'' False]]
   \<and> prepare_batch_cnt (fst (snd (PrepareInternal (example_engine True False OK OK)
       (example_txn [Rec_Put 0 ''a'' ''1''] False [] False) []))) = 1
   \<and> counter_runs (snd (snd (PrepareInternal (example_engine True False OK OK)
       (example_txn [Rec_Put 0 ''a'' ''1''] False [] False) []))) = []"
  using PrepareInternal_sub_batch_count [where
      txn = "example_txn [Rec_Put 0 ''a'' ''1'', Rec_Put 0 ''a'' ''2''] True [] False"
      and w = "[]" and env = "example_engine True False OK OK"]
    PrepareInternal_sub_batch_count [where
      txn = "example_txn [Rec_Put 0 ''a'' ''1''] False [] False" and w = "[]"
      and env = "example_engine True False OK OK"]
  by (simp add: example_txn_def example_engine_def Let_def)

section \<open>CommitInternal\<close>

text \<open>The events of one \<^verbatim>\<open>CommitInternal\<close>, written out.\<close>

lemma CommitInternal_trace:
  "snd (snd (CommitInternal env txn w)) =
     w @ (if Count (commit_time_batch txn) \<noteq> 0
             \<and> use_only_the_last_commit_time_batch_for_recovery txn
          then [EvSetAsLastestPersistentState (commit_time_batch txn @ [Rec_Commit (txn_name txn)])]
          else [])
       @ (if asserts_on env \<and> prepare_batch_cnt txn = 0 then []
          else (if Count (commit_time_batch txn) \<noteq> 0
                   \<and> \<not> use_only_the_last_commit_time_batch_for_recovery txn
                then [EvSubBatchCounter (commit_time_batch txn @ [Rec_Commit (txn_name txn)])]
                else [])
             @ [EvWriteImpl
                 \<lparr>wc_write_options = txn_write_options txn,
                  wc_my_batch = commit_time_batch txn @ [Rec_Commit (txn_name txn)],
                  wc_callback = None, wc_log_used = False, wc_log_ref = 0,
                  wc_disable_memtable =
                    (\<not> (Count (commit_time_batch txn) \<noteq> 0
                        \<and> \<not> use_only_the_last_commit_time_batch_for_recovery txn)),
                  wc_seq_used = kMaxSequenceNumber env,
                  wc_batch_cnt =
                    (if Count (commit_time_batch txn) \<noteq> 0
                        \<and> \<not> use_only_the_last_commit_time_batch_for_recovery txn
                        \<and> BatchCount env (commit_time_batch txn @ [Rec_Commit (txn_name txn)]) \<noteq> 0
                     then BatchCount env (commit_time_batch txn @ [Rec_Commit (txn_name txn)])
                     else 1),
                  wc_pre_release_callback =
                    Some (WritePreparedCommitEntryPreReleaseCallback (GetId txn)
                      (prepare_batch_cnt txn)
                      (if Count (commit_time_batch txn) \<noteq> 0
                          \<and> \<not> use_only_the_last_commit_time_batch_for_recovery txn
                       then BatchCount env (commit_time_batch txn @ [Rec_Commit (txn_name txn)])
                       else 0) None)\<rparr>])"
  by (simp add: CommitInternal_def Let_def assert_fails_def MarkCommit_batch_def
      Iterate_counter_def ok_def OK_def GetId_def)
text \<open>
  C7. Unless the assertion on \<^verbatim>\<open>prepare_batch_cnt_\<close> stops it,
  \<^verbatim>\<open>CommitInternal\<close> issues one write, of the commit-time batch with its commit
  marker. Its batch count is the \<^verbatim>\<open>BatchCount()\<close> of a \<^verbatim>\<open>SubBatchCounter\<close>
  over that batch when the batch is written with its data (it is not empty and is not
  kept for recovery only), and 1 otherwise. Its pre-release callback carries the
  transaction id, \<^verbatim>\<open>prepare_batch_cnt_\<close> and the commit sub-batch count (0 when no
  counter ran).
\<close>

theorem CommitInternal_write_arguments:
  "let working_batch = commit_time_batch txn @ [Rec_Commit (txn_name txn)];
       includes_data = (Count (commit_time_batch txn) \<noteq> 0
                        \<and> \<not> use_only_the_last_commit_time_batch_for_recovery txn);
       commit_batch_cnt = (if includes_data then BatchCount env working_batch else 0);
       res = CommitInternal env txn w;
       writes = engine_writes (drop (length w) (snd (snd res)))
   in (asserts_on env \<longrightarrow> prepare_batch_cnt txn \<noteq> 0) \<longrightarrow>
        map wc_my_batch writes = [working_batch]
      \<and> (includes_data \<and> 0 < BatchCount env working_batch \<longrightarrow>
            map wc_batch_cnt writes = [BatchCount env working_batch])
      \<and> (\<not> includes_data \<longrightarrow> map wc_batch_cnt writes = [1])
      \<and> map wc_pre_release_callback writes =
            [Some (WritePreparedCommitEntryPreReleaseCallback (GetId txn)
                    (prepare_batch_cnt txn) commit_batch_cnt None)]"
  by (simp add: Let_def CommitInternal_trace engine_writes_def)

theorem CommitInternal_write_arguments_witness:
  "map wc_batch_cnt (engine_writes (snd (snd (CommitInternal (example_engine True False OK OK)
       (example_txn [] False [Rec_Put 0 ''k'' ''v''] False) [])))) = [2]
   \<and> map wc_pre_release_callback (engine_writes (snd (snd (CommitInternal
       (example_engine True False OK OK)
       (example_txn [] False [Rec_Put 0 ''k'' ''v''] False) [])))) =
       [Some (WritePreparedCommitEntryPreReleaseCallback 5 1 2 None)]
   \<and> map wc_batch_cnt (engine_writes (snd (snd (CommitInternal (example_engine True False OK OK)
       (example_txn [] False [] False) [])))) = [1]
   \<and> map wc_pre_release_callback (engine_writes (snd (snd (CommitInternal
       (example_engine True False OK OK) (example_txn [] False [] False) [])))) =
       [Some (WritePreparedCommitEntryPreReleaseCallback 5 1 0 None)]"
  using CommitInternal_write_arguments [where env = "example_engine True False OK OK"
      and txn = "example_txn [] False [Rec_Put 0 ''k'' ''v''] False" and w = "[]"]
    CommitInternal_write_arguments [where env = "example_engine True False OK OK"
      and txn = "example_txn [] False [] False" and w = "[]"]
  by (simp add: example_txn_def example_engine_def Let_def Count_def GetId_def)

text \<open>
  C1, as the code has it. When the commit-time batch is not empty and only the last
  commit-time batch is used for recovery, \<^verbatim>\<open>CommitInternal\<close> marks the batch, with
  its commit marker, as the latest persistent state; that is the first thing it does,
  before the commit write. When the batch is empty, or the policy is off, it marks
  nothing.
\<close>

theorem CommitInternal_persistent_state:
  "let working_batch = commit_time_batch txn @ [Rec_Commit (txn_name txn)];
       empty = (Count (commit_time_batch txn) = 0);
       for_recovery = use_only_the_last_commit_time_batch_for_recovery txn;
       res = CommitInternal env txn w;
       new = drop (length w) (snd (snd res))
   in (\<not> empty \<and> for_recovery \<longrightarrow>
         persistent_states new = [working_batch]
       \<and> take 1 new = [EvSetAsLastestPersistentState working_batch]
       \<and> ((asserts_on env \<longrightarrow> prepare_batch_cnt txn \<noteq> 0) \<longrightarrow>
            (\<exists>call. new = [EvSetAsLastestPersistentState working_batch, EvWriteImpl call]
                    \<and> wc_my_batch call = working_batch)))
    \<and> (empty \<or> \<not> for_recovery \<longrightarrow> persistent_states new = [])"
  by (simp add: Let_def CommitInternal_trace persistent_states_def)

theorem CommitInternal_persistent_state_witness:
  "persistent_states (snd (snd (CommitInternal (example_engine True False OK OK)
       (example_txn [] False [Rec_Put 0 ''k'' ''v''] True) []))) =
     [[Rec_Put 0 ''k'' ''v'', Rec_Commit ''t1'']]
   \<and> take 1 (snd (snd (CommitInternal (example_engine True False OK OK)
       (example_txn [] False [Rec_Put 0 ''k'' ''v''] True) []))) =
     [EvSetAsLastestPersistentState [Rec_Put 0 ''k'' ''v'', Rec_Commit ''t1'']]
   \<and> persistent_states (snd (snd (CommitInternal (example_engine True False OK OK)
       (example_txn [] False [Rec_Put 0 ''k'' ''v''] False) []))) = []"
  using CommitInternal_persistent_state [where env = "example_engine True False OK OK"
      and txn = "example_txn [] False [Rec_Put 0 ''k'' ''v''] True" and w = "[]"]
    CommitInternal_persistent_state [where env = "example_engine True False OK OK"
      and txn = "example_txn [] False [Rec_Put 0 ''k'' ''v''] False" and w = "[]"]
  by (simp add: example_txn_def Let_def Count_def)

text \<open>
  C1, as the claim has it, fails: a transaction with an empty commit-time batch under
  the recovery policy commits with one write and marks no batch as the latest
  persistent state.
\<close>

theorem CommitInternal_empty_batch_counterexample:
  "Count (commit_time_batch (example_txn [Rec_Put 0 ''a'' ''1''] False [] True)) = 0
   \<and> use_only_the_last_commit_time_batch_for_recovery
       (example_txn [Rec_Put 0 ''a'' ''1''] False [] True)
   \<and> fst (CommitInternal (example_engine True False OK OK)
       (example_txn [Rec_Put 0 ''a'' ''1''] False [] True) []) = Returned (Status kOk [])
   \<and> snd (snd (CommitInternal (example_engine True False OK OK)
       (example_txn [Rec_Put 0 ''a'' ''1''] False [] True) [])) =
      [EvWriteImpl
         \<lparr>wc_write_options = \<lparr>disableWAL = True\<rparr>, wc_my_batch = [Rec_Commit ''t1''],
          wc_callback = None, wc_log_used = False, wc_log_ref = 0,
          wc_disable_memtable = True, wc_seq_used = 72057594037927935, wc_batch_cnt = 1,
          wc_pre_release_callback =
            Some (WritePreparedCommitEntryPreReleaseCallback 5 1 0 None)\<rparr>]
   \<and> persistent_states (snd (snd (CommitInternal (example_engine True False OK OK)
       (example_txn [Rec_Put 0 ''a'' ''1''] False [] True) []))) = []"
  by (simp add: CommitInternal_def example_txn_def example_engine_def Let_def Count_def
      MarkCommit_batch_def assert_fails_def Iterate_counter_def GetId_def seq_after_def
      engine_writes_def persistent_states_def ok_def OK_def)

section \<open>RollbackInternal: the traversal and the writes\<close>

text \<open>The traversal issues reads and nothing else.\<close>

lemma Rollback_appends_reads:
  "\<exists>rs. snd (snd (Rollback env cf key h w)) = w @ rs
        \<and> engine_writes rs = [] \<and> RollbackPrepared_calls rs = []"
  by (simp add: Rollback_def Let_def engine_writes_def RollbackPrepared_calls_def)

lemma dispatch_appends_reads:
  "\<exists>rs. snd (snd (dispatch env r h w)) = w @ rs
        \<and> engine_writes rs = [] \<and> RollbackPrepared_calls rs = []"
proof (cases r)
  case (Rec_Put cf key val)
  then show ?thesis using Rollback_appends_reads [of env cf key h w] by (simp add: PutCF_def)
next
  case (Rec_Delete cf key)
  then show ?thesis using Rollback_appends_reads [of env cf key h w] by (simp add: DeleteCF_def)
next
  case (Rec_SingleDelete cf key)
  then show ?thesis
    using Rollback_appends_reads [of env cf key h w] by (simp add: SingleDeleteCF_def)
next
  case (Rec_Merge cf key val)
  then show ?thesis using Rollback_appends_reads [of env cf key h w] by (simp add: MergeCF_def)
qed (simp_all add: MarkNoop_def MarkBeginPrepare_def MarkEndPrepare_def MarkCommit_def
      MarkRollback_def engine_writes_def RollbackPrepared_calls_def)

lemma Iterate_appends_reads:
  "\<exists>rs. snd (snd (Iterate env b h w)) = w @ rs
        \<and> engine_writes rs = [] \<and> RollbackPrepared_calls rs = []"
proof (induction b arbitrary: h w)
  case Nil
  show ?case by (simp add: engine_writes_def RollbackPrepared_calls_def)
next
  case (Cons r b)
  obtain out h1 w1 where d: "dispatch env r h w = (out, h1, w1)"
    by (cases "dispatch env r h w") auto
  from dispatch_appends_reads [of env r h w] d obtain rs1 where
    r1: "w1 = w @ rs1" "engine_writes rs1 = []" "RollbackPrepared_calls rs1 = []" by auto
  from Cons.IH [of h1 w1] obtain rs2 where
    r2: "snd (snd (Iterate env b h1 w1)) = w1 @ rs2" "engine_writes rs2 = []"
      "RollbackPrepared_calls rs2 = []" by auto
  have both: "engine_writes (rs1 @ rs2) = []" "RollbackPrepared_calls (rs1 @ rs2) = []"
    using r1 r2 by (simp_all add: engine_writes_def RollbackPrepared_calls_def)
  show ?case
  proof (cases out)
    case (Returned s)
    show ?thesis
    proof (cases "ok s")
      case True
      then have "snd (snd (Iterate env (r # b) h w)) = w @ (rs1 @ rs2)"
        using d Returned r1 r2 by simp
      with both show ?thesis by blast
    next
      case False
      then have "snd (snd (Iterate env (r # b) h w)) = w @ rs1" using d Returned r1 by simp
      with r1 show ?thesis by blast
    qed
  next
    case AssertionFailed
    then have "snd (snd (Iterate env (r # b) h w)) = w @ rs1" using d r1 by simp
    with r1 show ?thesis by blast
  next
    case NullDereference
    then have "snd (snd (Iterate env (r # b) h w)) = w @ rs1" using d r1 by simp
    with r1 show ?thesis by blast
  qed
qed


text \<open>The invariant holds of every traversal, for an irreflexive order of the keys.\<close>

lemma grows_refl: "grows env h w h w"
  unfolding grows_def
  by (rule exI [of _ "[]"], rule exI [of _ "[]"]) (simp add: engine_reads_def keys_of_def)

lemma read_back_mono:
  assumes "read_back env w1 ro cb w2 r"
  shows "read_back env (take n w1) ro cb (w2 @ ys) r"
proof -
  from assms obtain pre post cf key where
    "w2 = pre @ EvGetImpl ro cf key cb # post" "length w1 \<le> length pre"
    "(ok (fst (GetImpl env pre ro cf key cb)) \<and> r = Rec_Put cf key (snd (GetImpl env pre ro cf key cb)))
      \<or> (IsNotFound (fst (GetImpl env pre ro cf key cb)) \<and> r = Rec_Delete cf key)"
    unfolding read_back_def by blast
  then have "w2 @ ys = pre @ EvGetImpl ro cf key cb # (post @ ys)" "length (take n w1) \<le> length pre"
    by simp_all
  with \<open>_ \<or> _\<close> show ?thesis unfolding read_back_def by blast
qed

lemma grows_trans:
  assumes a: "grows env h w h1 w1" and b: "grows env h1 w1 h2 w2"
  shows "grows env h w h2 w2"
proof -
  from a obtain rs1 ad1 where a1: "w1 = w @ rs1" "rollback_batch h1 = rollback_batch h @ ad1"
    "roptions h1 = roptions h" "callback h1 = callback h"
    "\<forall>cf. set (keys_at h cf) \<subseteq> set (keys_at h1 cf)"
    "distinct (engine_reads rs1)"
    "\<forall>cf k. (cf, k) \<in> set (engine_reads rs1) \<longrightarrow> k \<notin> set (keys_at h cf) \<and> k \<in> set (keys_at h1 cf)"
    "distinct (keys_of ad1)" "set (keys_of ad1) \<subseteq> set (engine_reads rs1)"
    "\<forall>e \<in> set rs1. \<exists>cf key. e = EvGetImpl (roptions h) cf key (callback h)"
    "\<forall>r \<in> set ad1. read_back env w (roptions h) (callback h) w1 r"
    unfolding grows_def by blast
  from b obtain rs2 ad2 where b1: "w2 = w1 @ rs2" "rollback_batch h2 = rollback_batch h1 @ ad2"
    "roptions h2 = roptions h1" "callback h2 = callback h1"
    "\<forall>cf. set (keys_at h1 cf) \<subseteq> set (keys_at h2 cf)"
    "distinct (engine_reads rs2)"
    "\<forall>cf k. (cf, k) \<in> set (engine_reads rs2) \<longrightarrow> k \<notin> set (keys_at h1 cf) \<and> k \<in> set (keys_at h2 cf)"
    "distinct (keys_of ad2)" "set (keys_of ad2) \<subseteq> set (engine_reads rs2)"
    "\<forall>e \<in> set rs2. \<exists>cf key. e = EvGetImpl (roptions h1) cf key (callback h1)"
    "\<forall>r \<in> set ad2. read_back env w1 (roptions h1) (callback h1) w2 r"
    unfolding grows_def by blast
  have disj: "set (engine_reads rs1) \<inter> set (engine_reads rs2) = {}"
    using a1(7) b1(7) by fastforce
  have c1: "w2 = w @ (rs1 @ rs2)" using a1(1) b1(1) by simp
  have c2: "rollback_batch h2 = rollback_batch h @ (ad1 @ ad2)" using a1(2) b1(2) by simp
  have c3: "roptions h2 = roptions h" "callback h2 = callback h"
    using a1(3,4) b1(3,4) by simp_all
  have c4: "\<forall>cf. set (keys_at h cf) \<subseteq> set (keys_at h2 cf)"
    using a1(5) b1(5) by blast
  have c5: "distinct (engine_reads (rs1 @ rs2))"
    using a1(6) b1(6) disj by (simp add: engine_reads_def)
  have c6: "\<forall>cf k. (cf, k) \<in> set (engine_reads (rs1 @ rs2)) \<longrightarrow>
              k \<notin> set (keys_at h cf) \<and> k \<in> set (keys_at h2 cf)"
  proof (intro allI impI)
    fix cf k assume "(cf, k) \<in> set (engine_reads (rs1 @ rs2))"
    then consider "(cf, k) \<in> set (engine_reads rs1)" | "(cf, k) \<in> set (engine_reads rs2)"
      by (auto simp: engine_reads_def)
    then show "k \<notin> set (keys_at h cf) \<and> k \<in> set (keys_at h2 cf)"
    proof cases
      case 1 then show ?thesis using a1(7) b1(5) by blast
    next
      case 2 then show ?thesis using b1(7) a1(5) by blast
    qed
  qed
  have c7: "distinct (keys_of (ad1 @ ad2))"
    using a1(8,9) b1(8,9) disj by (auto simp: keys_of_def)
  have c8: "set (keys_of (ad1 @ ad2)) \<subseteq> set (engine_reads (rs1 @ rs2))"
    using a1(9) b1(9) by (auto simp: keys_of_def engine_reads_def)
  have c9: "\<forall>e \<in> set (rs1 @ rs2). \<exists>cf key. e = EvGetImpl (roptions h) cf key (callback h)"
    using a1(10) b1(10) a1(3,4) by auto
  have c10: "\<forall>r \<in> set (ad1 @ ad2). read_back env w (roptions h) (callback h) w2 r"
  proof
    fix r assume "r \<in> set (ad1 @ ad2)"
    then consider "r \<in> set ad1" | "r \<in> set ad2" by auto
    then show "read_back env w (roptions h) (callback h) w2 r"
    proof cases
      case 1
      then have "read_back env w (roptions h) (callback h) w1 r" using a1(11) by blast
      from read_back_mono [OF this, of "length w" rs2] show ?thesis
        using b1(1) by simp
    next
      case 2
      then have "read_back env w1 (roptions h) (callback h) w2 r" using b1(11) a1(3,4) by simp
      from read_back_mono [OF this, of "length w" "[]"] show ?thesis
        using a1(1) by simp
    qed
  qed
  show ?thesis unfolding grows_def
    using c1 c2 c3 c4 c5 c6 c7 c8 c9 c10 by blast
qed


lemma Rollback_seen:
  assumes "list_ex (equiv_under (SetComparator env cf) key) (keys_at h cf)"
  shows "Rollback env cf key h w = (Returned OK, h\<lparr>keys := (keys h)(cf \<mapsto> keys_at h cf)\<rparr>, w)"
  using assms by (simp add: Rollback_def Let_def CFKeys_insert_def)

lemma Rollback_fresh:
  assumes "\<not> list_ex (equiv_under (SetComparator env cf) key) (keys_at h cf)"
  shows "\<exists>out added.
           Rollback env cf key h w =
             (out, h\<lparr>keys := (keys h)(cf \<mapsto> keys_at h cf @ [key]),
                      rollback_batch := rollback_batch h @ added\<rparr>,
              w @ [EvGetImpl (roptions h) cf key (callback h)])
         \<and> (added = []
            \<or> (ok (fst (GetImpl env w (roptions h) cf key (callback h)))
               \<and> added = [Rec_Put cf key (snd (GetImpl env w (roptions h) cf key (callback h)))])
            \<or> (IsNotFound (fst (GetImpl env w (roptions h) cf key (callback h)))
               \<and> added = [Rec_Delete cf key]))"
proof -
  let ?g = "GetImpl env w (roptions h) cf key (callback h)"
  let ?h1 = "h\<lparr>keys := (keys h)(cf \<mapsto> keys_at h cf @ [key])\<rparr>"
  let ?w1 = "w @ [EvGetImpl (roptions h) cf key (callback h)]"
  have same: "?h1 = ?h1\<lparr>rollback_batch := rollback_batch h @ []\<rparr>" by simp
  consider (found) "ok (fst ?g)" | (missing) "\<not> ok (fst ?g)" "IsNotFound (fst ?g)"
    | (other) "\<not> ok (fst ?g)" "\<not> IsNotFound (fst ?g)" by blast
  then show ?thesis
  proof cases
    case found
    then have "Rollback env cf key h w =
        (Returned OK, ?h1\<lparr>rollback_batch := rollback_batch h @ [Rec_Put cf key (snd ?g)]\<rparr>, ?w1)"
      using assms
      by (simp add: Rollback_def Let_def CFKeys_insert_def WriteBatch_Put_def assert_fails_def
          ok_def OK_def)
    with found show ?thesis by blast
  next
    case missing
    then have "Rollback env cf key h w =
        (Returned OK, ?h1\<lparr>rollback_batch := rollback_batch h @ [Rec_Delete cf key]\<rparr>, ?w1)"
      using assms
      by (simp add: Rollback_def Let_def CFKeys_insert_def WriteBatch_Delete_def assert_fails_def
          ok_def OK_def)
    with missing show ?thesis by blast
  next
    case other
    then have "Rollback env cf key h w =
        ((if asserts_on env then AssertionFailed else Returned (fst ?g)), ?h1, ?w1)"
      using assms
      by (simp add: Rollback_def Let_def CFKeys_insert_def assert_fails_def)
    then have "Rollback env cf key h w =
        ((if asserts_on env then AssertionFailed else Returned (fst ?g)),
         ?h1\<lparr>rollback_batch := rollback_batch h @ []\<rparr>, ?w1)"
      using same by simp
    then show ?thesis by blast
  qed
qed

lemma keys_at_upd:
  "keys_at (h\<lparr>keys := (keys h)(cf \<mapsto> ks)\<rparr>) cf' = (if cf' = cf then ks else keys_at h cf')"
  by (simp add: keys_at_def)

lemma keys_at_upd2:
  "keys_at (h\<lparr>keys := (keys h)(cf \<mapsto> ks), rollback_batch := b\<rparr>) cf' =
     (if cf' = cf then ks else keys_at h cf')"
  by (simp add: keys_at_def)

lemma fresh_not_member:
  assumes irr: "\<not> lt key key" and "\<not> list_ex (equiv_under lt key) ks"
  shows "key \<notin> set ks"
  using assms by (auto simp: list_ex_iff equiv_under_def)

lemma Rollback_grows:
  assumes irr: "\<forall>cf k. \<not> SetComparator env cf k k"
  shows "grows env h w (fst (snd (Rollback env cf key h w))) (snd (snd (Rollback env cf key h w)))"
proof (cases "list_ex (equiv_under (SetComparator env cf) key) (keys_at h cf)")
  case True
  show ?thesis
    unfolding Rollback_seen [OF True] grows_def
    by (rule exI [of _ "[]"], rule exI [of _ "[]"])
       (simp add: keys_at_upd engine_reads_def keys_of_def)
next
  case False
  from Rollback_fresh [OF False, of w] obtain out added where
    r: "Rollback env cf key h w =
          (out, h\<lparr>keys := (keys h)(cf \<mapsto> keys_at h cf @ [key]),
                   rollback_batch := rollback_batch h @ added\<rparr>,
           w @ [EvGetImpl (roptions h) cf key (callback h)])"
    and ad: "added = []
            \<or> (ok (fst (GetImpl env w (roptions h) cf key (callback h)))
               \<and> added = [Rec_Put cf key (snd (GetImpl env w (roptions h) cf key (callback h)))])
            \<or> (IsNotFound (fst (GetImpl env w (roptions h) cf key (callback h)))
               \<and> added = [Rec_Delete cf key])"
    by blast
  have nm: "key \<notin> set (keys_at h cf)"
    using fresh_not_member [OF _ False] irr by blast
  have rb: "\<forall>r \<in> set added. read_back env w (roptions h) (callback h)
              (w @ [EvGetImpl (roptions h) cf key (callback h)]) r"
  proof
    fix r assume "r \<in> set added"
    with ad have "(ok (fst (GetImpl env w (roptions h) cf key (callback h)))
               \<and> r = Rec_Put cf key (snd (GetImpl env w (roptions h) cf key (callback h))))
            \<or> (IsNotFound (fst (GetImpl env w (roptions h) cf key (callback h)))
               \<and> r = Rec_Delete cf key)" by auto
    then show "read_back env w (roptions h) (callback h)
              (w @ [EvGetImpl (roptions h) cf key (callback h)]) r"
      unfolding read_back_def
      by (intro exI [of _ w] exI [of _ "[]"] exI [of _ cf] exI [of _ key]) simp
  qed
  have ks: "distinct (keys_of added)" "set (keys_of added) \<subseteq> {(cf, key)}"
    using ad by (auto simp: keys_of_def)
  show ?thesis
    unfolding r grows_def
    apply (rule exI [of _ "[EvGetImpl (roptions h) cf key (callback h)]"])
    apply (rule exI [of _ added])
    using nm rb ks by (auto simp: keys_at_upd2 engine_reads_def)
qed

lemma dispatch_grows:
  assumes irr: "\<forall>cf k. \<not> SetComparator env cf k k"
  shows "grows env h w (fst (snd (dispatch env r h w))) (snd (snd (dispatch env r h w)))"
  by (cases r)
     (simp_all add: PutCF_def DeleteCF_def SingleDeleteCF_def MergeCF_def MarkNoop_def
       MarkBeginPrepare_def MarkEndPrepare_def MarkCommit_def MarkRollback_def
       Rollback_grows [OF irr] grows_refl)

lemma Iterate_grows:
  assumes irr: "\<forall>cf k. \<not> SetComparator env cf k k"
  shows "grows env h w (fst (snd (Iterate env b h w))) (snd (snd (Iterate env b h w)))"
proof (induction b arbitrary: h w)
  case Nil
  show ?case by (simp add: grows_refl)
next
  case (Cons r rs)
  obtain out h1 w1 where d: "dispatch env r h w = (out, h1, w1)"
    by (cases "dispatch env r h w") auto
  have g1: "grows env h w h1 w1" using dispatch_grows [OF irr, of h w r] d by simp
  show ?case
  proof (cases out)
    case (Returned s)
    show ?thesis
    proof (cases "ok s")
      case True
      have "grows env h1 w1 (fst (snd (Iterate env rs h1 w1))) (snd (snd (Iterate env rs h1 w1)))"
        by (rule Cons.IH)
      from grows_trans [OF g1 this] show ?thesis using d Returned True by simp
    next
      case False
      then show ?thesis using d Returned g1 by simp
    qed
  qed (use d g1 in simp_all)
qed

text \<open>
  One \<^verbatim>\<open>RollbackInternal\<close>, branch by branch: \<open>call1\<close> is the write of the
  rollback batch and \<open>call2\<close> the second write of the two-queue mode.
\<close>

lemma RollbackInternal_run:
  assumes it: "Iterate env (GetWriteBatch (txn_write_batch txn))
               (RollbackWriteBatchBuilder_new (GetId txn - 1) []) w = (out, h1, w1)"
    and c1: "call1 = \<lparr>wc_write_options = txn_write_options txn,
                  wc_my_batch = rollback_batch h1 @ [Rec_Rollback (txn_name txn)],
                  wc_callback = None, wc_log_used = False, wc_log_ref = 0,
                  wc_disable_memtable = False, wc_seq_used = kMaxSequenceNumber env,
                  wc_batch_cnt = 1,
                  wc_pre_release_callback =
                    (if two_write_queues env then None
                     else Some (WritePreparedCommitEntryPreReleaseCallback
                                  (kMaxSequenceNumber env) 0 1 None))\<rparr>"
    and r1: "r1 = WriteImpl env w1 call1"
    and p: "prepare_seq = seq_after (kMaxSequenceNumber env) r1"
    and c2: "call2 = \<lparr>wc_write_options = txn_write_options txn,
                  wc_my_batch = [Rec_LogData [], Rec_Noop],
                  wc_callback = None, wc_log_used = False, wc_log_ref = 0,
                  wc_disable_memtable = True, wc_seq_used = prepare_seq,
                  wc_batch_cnt = 1,
                  wc_pre_release_callback =
                    Some (WritePreparedCommitEntryPreReleaseCallback prepare_seq 1 0 (Some True))\<rparr>"
    and r2: "r2 = WriteImpl env (w1 @ [EvWriteImpl call1]) call2"
    and q: "rollback_seq = seq_after prepare_seq r2"
  shows "RollbackInternal env txn w =
     (if assert_fails env (GetId txn \<noteq> kMaxSequenceNumber env) \<or> assert_fails env (GetId txn > 0)
      then (AssertionFailed, w)
      else case out of
          AssertionFailed \<Rightarrow> (AssertionFailed, w1)
        | NullDereference \<Rightarrow> (NullDereference, w1)
        | Returned s \<Rightarrow>
            if \<not> ok s then (if asserts_on env then AssertionFailed else Returned s, w1)
            else if \<not> ok (wr_status r1) then (Returned (wr_status r1), w1 @ [EvWriteImpl call1])
            else if assert_fails env (prepare_seq \<noteq> kMaxSequenceNumber env)
              then (AssertionFailed, w1 @ [EvWriteImpl call1])
            else if \<not> two_write_queues env
              then (Returned (wr_status r1),
                    w1 @ [EvWriteImpl call1, EvRollbackPrepared (GetId txn) prepare_seq])
            else if \<not> ok (wr_status r2)
              then (Returned (wr_status r2), w1 @ [EvWriteImpl call1, EvWriteImpl call2])
            else if assert_fails env (rollback_seq \<noteq> kMaxSequenceNumber env)
              then (AssertionFailed, w1 @ [EvWriteImpl call1, EvWriteImpl call2])
            else (Returned (wr_status r2),
                  w1 @ [EvWriteImpl call1, EvWriteImpl call2,
                        EvRollbackPrepared (GetId txn) rollback_seq]))"
  unfolding c1 r1 p c2 r2 q
  by (simp add: RollbackInternal_def it Let_def assert_fails_def MarkRollback_batch_def
      InsertNoop_def PutLogData_def split: Outcome.splits)

lemma RollbackInternal_traces:
  assumes it: "Iterate env (GetWriteBatch (txn_write_batch txn))
               (RollbackWriteBatchBuilder_new (GetId txn - 1) []) w = (out, h1, w1)"
  shows "\<exists>call1 call2 seq.
           wc_my_batch call1 = rollback_batch h1 @ [Rec_Rollback (txn_name txn)]
         \<and> wc_my_batch call2 = [Rec_LogData [], Rec_Noop]
         \<and> (snd (RollbackInternal env txn w) = w
            \<or> snd (RollbackInternal env txn w) = w1
            \<or> snd (RollbackInternal env txn w) = w1 @ [EvWriteImpl call1]
            \<or> snd (RollbackInternal env txn w) =
                 w1 @ [EvWriteImpl call1, EvRollbackPrepared (GetId txn) seq]
            \<or> snd (RollbackInternal env txn w) = w1 @ [EvWriteImpl call1, EvWriteImpl call2]
            \<or> snd (RollbackInternal env txn w) =
                 w1 @ [EvWriteImpl call1, EvWriteImpl call2,
                       EvRollbackPrepared (GetId txn) seq])"
proof -
  define call1 where "call1 = \<lparr>wc_write_options = txn_write_options txn,
                  wc_my_batch = rollback_batch h1 @ [Rec_Rollback (txn_name txn)],
                  wc_callback = None, wc_log_used = False, wc_log_ref = 0,
                  wc_disable_memtable = False, wc_seq_used = kMaxSequenceNumber env,
                  wc_batch_cnt = 1,
                  wc_pre_release_callback =
                    (if two_write_queues env then None
                     else Some (WritePreparedCommitEntryPreReleaseCallback
                                  (kMaxSequenceNumber env) 0 1 None))\<rparr>"
  define r1 where "r1 = WriteImpl env w1 call1"
  define prepare_seq where "prepare_seq = seq_after (kMaxSequenceNumber env) r1"
  define call2 where "call2 = \<lparr>wc_write_options = txn_write_options txn,
                  wc_my_batch = [Rec_LogData [], Rec_Noop],
                  wc_callback = None, wc_log_used = False, wc_log_ref = 0,
                  wc_disable_memtable = True, wc_seq_used = prepare_seq,
                  wc_batch_cnt = 1,
                  wc_pre_release_callback =
                    Some (WritePreparedCommitEntryPreReleaseCallback prepare_seq 1 0 (Some True))\<rparr>"
  define r2 where "r2 = WriteImpl env (w1 @ [EvWriteImpl call1]) call2"
  define rollback_seq where "rollback_seq = seq_after prepare_seq r2"
  note run = RollbackInternal_run [OF it call1_def r1_def prepare_seq_def call2_def r2_def
      rollback_seq_def]
  have b1: "wc_my_batch call1 = rollback_batch h1 @ [Rec_Rollback (txn_name txn)]"
    by (simp add: call1_def)
  have b2: "wc_my_batch call2 = [Rec_LogData [], Rec_Noop]"
    by (simp add: call2_def)
  have "snd (RollbackInternal env txn w) = w
      \<or> snd (RollbackInternal env txn w) = w1
      \<or> snd (RollbackInternal env txn w) = w1 @ [EvWriteImpl call1]
      \<or> snd (RollbackInternal env txn w) =
           w1 @ [EvWriteImpl call1, EvRollbackPrepared (GetId txn) prepare_seq]
      \<or> snd (RollbackInternal env txn w) = w1 @ [EvWriteImpl call1, EvWriteImpl call2]
      \<or> snd (RollbackInternal env txn w) =
           w1 @ [EvWriteImpl call1, EvWriteImpl call2,
                 EvRollbackPrepared (GetId txn) rollback_seq]"
    unfolding run by (simp split: Outcome.splits)
  then consider
      "snd (RollbackInternal env txn w) = w" | "snd (RollbackInternal env txn w) = w1"
    | "snd (RollbackInternal env txn w) = w1 @ [EvWriteImpl call1]"
    | "snd (RollbackInternal env txn w) =
         w1 @ [EvWriteImpl call1, EvRollbackPrepared (GetId txn) prepare_seq]"
    | "snd (RollbackInternal env txn w) = w1 @ [EvWriteImpl call1, EvWriteImpl call2]"
    | "snd (RollbackInternal env txn w) =
         w1 @ [EvWriteImpl call1, EvWriteImpl call2,
               EvRollbackPrepared (GetId txn) rollback_seq]"
    by blast
  then show ?thesis
  proof cases
    case 6
    with b1 b2 show ?thesis by blast
  next
    case 4
    with b1 b2 show ?thesis by blast
  qed (use b1 b2 in blast)+
qed

lemma RollbackInternal_two_queues_props:
  assumes two: "two_write_queues env"
    and it: "Iterate env (GetWriteBatch (txn_write_batch txn))
               (RollbackWriteBatchBuilder_new (GetId txn - 1) []) w = (out, h1, w1)"
    and c1: "call1 = \<lparr>wc_write_options = txn_write_options txn,
                  wc_my_batch = rollback_batch h1 @ [Rec_Rollback (txn_name txn)],
                  wc_callback = None, wc_log_used = False, wc_log_ref = 0,
                  wc_disable_memtable = False, wc_seq_used = kMaxSequenceNumber env,
                  wc_batch_cnt = 1, wc_pre_release_callback = None\<rparr>"
    and r1: "r1 = WriteImpl env w1 call1"
    and p: "prepare_seq = seq_after (kMaxSequenceNumber env) r1"
    and c2: "call2 = \<lparr>wc_write_options = txn_write_options txn,
                  wc_my_batch = [Rec_LogData [], Rec_Noop],
                  wc_callback = None, wc_log_used = False, wc_log_ref = 0,
                  wc_disable_memtable = True, wc_seq_used = prepare_seq,
                  wc_batch_cnt = 1,
                  wc_pre_release_callback =
                    Some (WritePreparedCommitEntryPreReleaseCallback prepare_seq 1 0 (Some True))\<rparr>"
    and r2: "r2 = WriteImpl env (w1 @ [EvWriteImpl call1]) call2"
    and q: "rollback_seq = seq_after prepare_seq r2"
  shows "((\<exists>s. fst (RollbackInternal env txn w) = Returned s \<and> ok s) \<longrightarrow>
            engine_writes (drop (length w) (snd (RollbackInternal env txn w))) = [call1, call2]
          \<and> ok (wr_status r1) \<and> ok (wr_status r2)
          \<and> snd (RollbackInternal env txn w) =
              w1 @ [EvWriteImpl call1, EvWriteImpl call2,
                    EvRollbackPrepared (GetId txn) rollback_seq]
          \<and> RollbackPrepared_calls (drop (length w) (w1 @ [EvWriteImpl call1, EvWriteImpl call2])) = []
          \<and> RollbackPrepared_calls (drop (length w) (snd (RollbackInternal env txn w))) =
              [(GetId txn, rollback_seq)])
      \<and> (\<not> (\<exists>s. fst (RollbackInternal env txn w) = Returned s \<and> ok s) \<longrightarrow>
            RollbackPrepared_calls (drop (length w) (snd (RollbackInternal env txn w))) = [])"
proof -
  have c1': "call1 = \<lparr>wc_write_options = txn_write_options txn,
                  wc_my_batch = rollback_batch h1 @ [Rec_Rollback (txn_name txn)],
                  wc_callback = None, wc_log_used = False, wc_log_ref = 0,
                  wc_disable_memtable = False, wc_seq_used = kMaxSequenceNumber env,
                  wc_batch_cnt = 1,
                  wc_pre_release_callback =
                    (if two_write_queues env then None
                     else Some (WritePreparedCommitEntryPreReleaseCallback
                                  (kMaxSequenceNumber env) 0 1 None))\<rparr>"
    using c1 two by simp
  note run0 = RollbackInternal_run [OF it c1' r1 p c2 r2 q]
  have run: "RollbackInternal env txn w =
     (if assert_fails env (GetId txn \<noteq> kMaxSequenceNumber env) \<or> assert_fails env (GetId txn > 0)
      then (AssertionFailed, w)
      else case out of
          AssertionFailed \<Rightarrow> (AssertionFailed, w1)
        | NullDereference \<Rightarrow> (NullDereference, w1)
        | Returned s \<Rightarrow>
            if \<not> ok s then (if asserts_on env then AssertionFailed else Returned s, w1)
            else if \<not> ok (wr_status r1) then (Returned (wr_status r1), w1 @ [EvWriteImpl call1])
            else if assert_fails env (prepare_seq \<noteq> kMaxSequenceNumber env)
              then (AssertionFailed, w1 @ [EvWriteImpl call1])
            else if \<not> ok (wr_status r2)
              then (Returned (wr_status r2), w1 @ [EvWriteImpl call1, EvWriteImpl call2])
            else if assert_fails env (rollback_seq \<noteq> kMaxSequenceNumber env)
              then (AssertionFailed, w1 @ [EvWriteImpl call1, EvWriteImpl call2])
            else (Returned (wr_status r2),
                  w1 @ [EvWriteImpl call1, EvWriteImpl call2,
                        EvRollbackPrepared (GetId txn) rollback_seq]))"
    unfolding run0 using two by (simp split: Outcome.splits)
  from Iterate_appends_reads [of env "GetWriteBatch (txn_write_batch txn)"
      "RollbackWriteBatchBuilder_new (GetId txn - 1) []" w] it
  obtain rs where rs: "w1 = w @ rs" "engine_writes rs = []" "RollbackPrepared_calls rs = []"
    by auto
  have ew: "\<And>xs. engine_writes (rs @ xs) = engine_writes xs"
    using rs(2) by (simp add: engine_writes_def)
  have rp: "\<And>xs. RollbackPrepared_calls (rs @ xs) = RollbackPrepared_calls xs"
    using rs(3) by (simp add: RollbackPrepared_calls_def)
  have e1: "engine_writes [EvWriteImpl call1, EvWriteImpl call2,
              EvRollbackPrepared (GetId txn) rollback_seq] = [call1, call2]"
    by (simp add: engine_writes_def)
  have p0: "RollbackPrepared_calls [] = []"
    "RollbackPrepared_calls [EvWriteImpl call1] = []"
    "RollbackPrepared_calls [EvWriteImpl call1, EvWriteImpl call2] = []"
    "RollbackPrepared_calls [EvWriteImpl call1, EvWriteImpl call2,
        EvRollbackPrepared (GetId txn) rollback_seq] = [(GetId txn, rollback_seq)]"
    by (simp_all add: RollbackPrepared_calls_def)
  show ?thesis
  proof (cases "assert_fails env (GetId txn \<noteq> kMaxSequenceNumber env)
                \<or> assert_fails env (GetId txn > 0)")
    case True
    then have "RollbackInternal env txn w = (AssertionFailed, w)" using run by simp
    then show ?thesis by (simp add: p0)
  next
    case early: False
    show ?thesis
    proof (cases out)
      case AssertionFailed
      then have "RollbackInternal env txn w = (AssertionFailed, w1)" using run early by simp
      then show ?thesis using rs by simp
    next
      case NullDereference
      then have "RollbackInternal env txn w = (NullDereference, w1)" using run early by simp
      then show ?thesis using rs by simp
    next
      case (Returned s)
      note run' = run [unfolded Returned Outcome.case]
      show ?thesis
      proof (cases "ok s")
        case False
        then have "RollbackInternal env txn w =
            (if asserts_on env then AssertionFailed else Returned s, w1)"
          using run' early by simp
        then show ?thesis using rs False by simp
      next
        case oks: True
        show ?thesis
        proof (cases "ok (wr_status r1)")
          case False
          then have "RollbackInternal env txn w = (Returned (wr_status r1), w1 @ [EvWriteImpl call1])"
            using run' early oks by simp
          then show ?thesis using rs(1) False by (simp add: rp p0)
        next
          case ok1: True
          show ?thesis
          proof (cases "assert_fails env (prepare_seq \<noteq> kMaxSequenceNumber env)")
            case True
            then have "RollbackInternal env txn w = (AssertionFailed, w1 @ [EvWriteImpl call1])"
              using run' early oks ok1 by simp
            then show ?thesis using rs(1) by (simp add: rp p0)
          next
            case a1: False
            show ?thesis
            proof (cases "ok (wr_status r2)")
              case False
              then have "RollbackInternal env txn w =
                  (Returned (wr_status r2), w1 @ [EvWriteImpl call1, EvWriteImpl call2])"
                using run' early oks ok1 a1 by simp
              then show ?thesis using rs(1) False by (simp add: rp p0)
            next
              case ok2: True
              show ?thesis
              proof (cases "assert_fails env (rollback_seq \<noteq> kMaxSequenceNumber env)")
                case True
                then have "RollbackInternal env txn w =
                    (AssertionFailed, w1 @ [EvWriteImpl call1, EvWriteImpl call2])"
                  using run' early oks ok1 a1 ok2 by simp
                then show ?thesis using rs(1) by (simp add: rp p0)
              next
                case False
                then have "RollbackInternal env txn w =
                    (Returned (wr_status r2),
                     w1 @ [EvWriteImpl call1, EvWriteImpl call2,
                           EvRollbackPrepared (GetId txn) rollback_seq])"
                  using run' early oks ok1 a1 ok2 by simp
                then show ?thesis using rs(1) ok1 ok2 by (simp add: rp ew e1 p0)
              qed
            qed
          qed
        qed
      qed
    qed
  qed
qed

text \<open>
  C2. With two write queues, let \<open>call1\<close> be the write of the rollback batch (with
  its rollback marker, into the memtable, without a pre-release callback) and \<open>call2\<close>
  the write of the empty batch (log data and a noop marker, memtable disabled, with the
  pre-release callback built from the sequence number of the first write), \<open>r1\<close> and
  \<open>r2\<close> the engine's answers. A rollback that returns OK has issued exactly these two
  writes, both answered OK, and then one \<^verbatim>\<open>RollbackPrepared\<close> with the id of the
  transaction and the sequence number of the second write; up to and including the second
  write no \<^verbatim>\<open>RollbackPrepared\<close> has been called. A rollback that does not return
  OK, in particular one whose first or second write fails, calls no
  \<^verbatim>\<open>RollbackPrepared\<close> at all.
\<close>

theorem RollbackInternal_two_write_queues:
  assumes two: "two_write_queues env"
  shows
    "let it = Iterate env (GetWriteBatch (txn_write_batch txn))
                (RollbackWriteBatchBuilder_new (GetId txn - 1) []) w;
         w1 = snd (snd it);
         call1 = \<lparr>wc_write_options = txn_write_options txn,
                  wc_my_batch = rollback_batch (fst (snd it)) @ [Rec_Rollback (txn_name txn)],
                  wc_callback = None, wc_log_used = False, wc_log_ref = 0,
                  wc_disable_memtable = False, wc_seq_used = kMaxSequenceNumber env,
                  wc_batch_cnt = 1, wc_pre_release_callback = None\<rparr>;
         r1 = WriteImpl env w1 call1;
         prepare_seq = seq_after (kMaxSequenceNumber env) r1;
         call2 = \<lparr>wc_write_options = txn_write_options txn,
                  wc_my_batch = [Rec_LogData [], Rec_Noop],
                  wc_callback = None, wc_log_used = False, wc_log_ref = 0,
                  wc_disable_memtable = True, wc_seq_used = prepare_seq,
                  wc_batch_cnt = 1,
                  wc_pre_release_callback =
                    Some (WritePreparedCommitEntryPreReleaseCallback prepare_seq 1 0 (Some True))\<rparr>;
         r2 = WriteImpl env (w1 @ [EvWriteImpl call1]) call2;
         rollback_seq = seq_after prepare_seq r2;
         res = RollbackInternal env txn w;
         new = drop (length w) (snd res)
     in ((\<exists>s. fst res = Returned s \<and> ok s) \<longrightarrow>
            engine_writes new = [call1, call2]
          \<and> ok (wr_status r1) \<and> ok (wr_status r2)
          \<and> snd res = w1 @ [EvWriteImpl call1, EvWriteImpl call2,
                            EvRollbackPrepared (GetId txn) rollback_seq]
          \<and> RollbackPrepared_calls (drop (length w) (w1 @ [EvWriteImpl call1, EvWriteImpl call2])) = []
          \<and> RollbackPrepared_calls new = [(GetId txn, rollback_seq)])
      \<and> (\<not> (\<exists>s. fst res = Returned s \<and> ok s) \<longrightarrow> RollbackPrepared_calls new = [])
      \<and> (\<not> ok (wr_status r1) \<or> \<not> ok (wr_status r2) \<longrightarrow> RollbackPrepared_calls new = [])"
proof -
  let ?it = "Iterate env (GetWriteBatch (txn_write_batch txn))
                (RollbackWriteBatchBuilder_new (GetId txn - 1) []) w"
  have it: "?it = (fst ?it, fst (snd ?it), snd (snd ?it))" by simp
  note main = RollbackInternal_two_queues_props [OF two it refl refl refl refl refl refl]
  show ?thesis
    unfolding Let_def
    apply (intro conjI)
      apply (rule main [THEN conjunct1])
     apply (rule main [THEN conjunct2])
    using main by blast
qed

theorem RollbackInternal_two_write_queues_witness:
  "fst (RollbackInternal (example_engine True True OK OK)
      (example_txn [Rec_Put 0 ''a'' ''1'', Rec_Delete 0 ''bb''] False [] False) [])
     = Returned (Status kOk [])
   \<and> map wc_my_batch (engine_writes (snd (RollbackInternal (example_engine True True OK OK)
      (example_txn [Rec_Put 0 ''a'' ''1'', Rec_Delete 0 ''bb''] False [] False) []))) =
     [[Rec_Put 0 ''a'' ''old'', Rec_Delete 0 ''bb'', Rec_Rollback ''t1''],
      [Rec_LogData [], Rec_Noop]]
   \<and> map wc_pre_release_callback (engine_writes (snd (RollbackInternal
      (example_engine True True OK OK)
      (example_txn [Rec_Put 0 ''a'' ''1'', Rec_Delete 0 ''bb''] False [] False) []))) =
     [None, Some (WritePreparedCommitEntryPreReleaseCallback 101 1 0 (Some True))]
   \<and> RollbackPrepared_calls (snd (RollbackInternal (example_engine True True OK OK)
      (example_txn [Rec_Put 0 ''a'' ''1'', Rec_Delete 0 ''bb''] False [] False) [])) = [(5, 102)]
   \<and> RollbackPrepared_calls (snd (RollbackInternal
      (example_engine True True OK (Status kIOError ''disk''))
      (example_txn [Rec_Put 0 ''a'' ''1'', Rec_Delete 0 ''bb''] False [] False) [])) = []"
proof -
  let ?T = "example_txn [Rec_Put 0 ''a'' ''1'', Rec_Delete 0 ''bb''] False [] False"
  let ?E = "example_engine True True OK OK"
  let ?F = "example_engine True True OK (Status kIOError ''disk'')"
  let ?h = "\<lparr>roptions = \<lparr>snapshot = None\<rparr>, callback = WritePreparedTxnReadCallback 4,
        rollback_batch = [Rec_Put 0 ''a'' ''old'', Rec_Delete 0 ''bb''],
        keys = [0 \<mapsto> [''a'', ''bb'']]\<rparr>"
  let ?w = "[EvGetImpl \<lparr>snapshot = None\<rparr> 0 ''a'' (WritePreparedTxnReadCallback 4),
        EvGetImpl \<lparr>snapshot = None\<rparr> 0 ''bb'' (WritePreparedTxnReadCallback 4)]"
  have two: "two_write_queues ?E" "two_write_queues ?F"
    by (simp_all add: example_engine_def)
  have id: "GetId ?T - 1 = 4" "GetWriteBatch (txn_write_batch ?T) =
      [Rec_Put 0 ''a'' ''1'', Rec_Delete 0 ''bb'']"
    by (simp_all add: GetId_def example_txn_def)
  have iter: "Iterate (example_engine True True OK st2)
      [Rec_Put 0 ''a'' ''1'', Rec_Delete 0 ''bb''] (RollbackWriteBatchBuilder_new 4 []) [] =
      (Returned (Status kOk []), ?h, ?w)" for st2
    by (simp add: example_engine_def Let_def assert_fails_def
        RollbackWriteBatchBuilder_new_def PutCF_def DeleteCF_def Rollback_def
        CFKeys_insert_def keys_at_def equiv_under_def WriteBatch_Put_def WriteBatch_Delete_def
        ok_def OK_def IsNotFound_def)
  have it: "Iterate ?E (GetWriteBatch (txn_write_batch ?T))
              (RollbackWriteBatchBuilder_new (GetId ?T - 1) []) [] =
      (Returned (Status kOk []), ?h, ?w)"
    by (simp only: id iter)
  have ok_run: "fst (RollbackInternal ?E ?T []) = Returned (Status kOk [])"
    unfolding RollbackInternal_run [OF it refl refl refl refl refl refl]
    by (simp add: GetId_def example_txn_def example_engine_def assert_fails_def ok_def OK_def
        seq_after_def engine_writes_def)
  then have succ: "\<exists>s. fst (RollbackInternal ?E ?T []) = Returned s \<and> ok s"
    by (simp add: ok_def)
  note good = RollbackInternal_two_write_queues [OF two(1), where txn = ?T and w = "[]",
      unfolded Let_def id iter, THEN conjunct1, rule_format, OF succ]
  note bad = RollbackInternal_two_write_queues [OF two(2), where txn = ?T and w = "[]",
      unfolded Let_def id iter, THEN conjunct2, THEN conjunct2]
  have g1: "map wc_my_batch (engine_writes (snd (RollbackInternal ?E ?T []))) =
     [[Rec_Put 0 ''a'' ''old'', Rec_Delete 0 ''bb'', Rec_Rollback ''t1''],
      [Rec_LogData [], Rec_Noop]]"
    and g2: "map wc_pre_release_callback (engine_writes (snd (RollbackInternal ?E ?T []))) =
     [None, Some (WritePreparedCommitEntryPreReleaseCallback 101 1 0 (Some True))]"
    and g3: "RollbackPrepared_calls (snd (RollbackInternal ?E ?T [])) = [(5, 102)]"
    using good
    by (elim conjE, simp add: example_engine_def example_txn_def GetId_def seq_after_def
        engine_writes_def)+
  have b: "RollbackPrepared_calls (snd (RollbackInternal ?F ?T [])) = []"
    using bad
    by (simp add: example_engine_def example_txn_def GetId_def seq_after_def
        engine_writes_def ok_def)
  show ?thesis using ok_run g1 g2 g3 b by simp
qed

section \<open>RollbackInternal: every pair is read back once\<close>

lemma word_le_pred_iff: "0 < (x::64 word) \<Longrightarrow> (y \<le> x - 1) = (y < x)"
  by (simp add: less_eq_dec_iff word_gt_0)

lemma Rollback_result:
  "Rollback env cf key h w =
     (if list_ex (equiv_under (SetComparator env cf) key) (keys_at h cf)
      then (Returned OK, h\<lparr>keys := (keys h)(cf \<mapsto> keys_at h cf)\<rparr>, w)
      else if ok (fst (GetImpl env w (roptions h) cf key (callback h)))
      then (Returned OK,
            h\<lparr>keys := (keys h)(cf \<mapsto> keys_at h cf @ [key]),
              rollback_batch := rollback_batch h
                @ [Rec_Put cf key (snd (GetImpl env w (roptions h) cf key (callback h)))]\<rparr>,
            w @ [EvGetImpl (roptions h) cf key (callback h)])
      else if IsNotFound (fst (GetImpl env w (roptions h) cf key (callback h)))
      then (Returned OK,
            h\<lparr>keys := (keys h)(cf \<mapsto> keys_at h cf @ [key]),
              rollback_batch := rollback_batch h @ [Rec_Delete cf key]\<rparr>,
            w @ [EvGetImpl (roptions h) cf key (callback h)])
      else (if asserts_on env then AssertionFailed
            else Returned (fst (GetImpl env w (roptions h) cf key (callback h))),
            h\<lparr>keys := (keys h)(cf \<mapsto> keys_at h cf @ [key])\<rparr>,
            w @ [EvGetImpl (roptions h) cf key (callback h)]))"
  by (simp add: Rollback_def Let_def CFKeys_insert_def WriteBatch_Put_def WriteBatch_Delete_def
      assert_fails_def ok_def OK_def)

lemma keys_at_simps:
  "keys_at (h\<lparr>keys := (keys h)(cf \<mapsto> ks)\<rparr>) cf' = (if cf' = cf then ks else keys_at h cf')"
  "keys_at (h\<lparr>keys := (keys h)(cf \<mapsto> ks), rollback_batch := b\<rparr>) cf' =
     (if cf' = cf then ks else keys_at h cf')"
  by (simp_all add: keys_at_def)

lemma equiv_under_self: "\<not> lt k k \<Longrightarrow> equiv_under lt k k"
  by (simp add: equiv_under_def)

text \<open>One successful handler call on a keyed record.\<close>

lemma Rollback_success:
  assumes irr: "\<forall>cf k. \<not> SetComparator env cf k k"
    and run: "Rollback env cf key h w = (Returned s, h1, w1)" and s: "ok s"
  shows "\<exists>rs. w1 = w @ rs
      \<and> keys_of (rollback_batch h1) = keys_of (rollback_batch h) @ engine_reads rs
      \<and> (\<forall>c. set (keys_at h1 c) = set (keys_at h c) \<union> {k. (c, k) \<in> set (engine_reads rs)})
      \<and> list_ex (equiv_under (SetComparator env cf) key) (keys_at h1 cf)"
proof (cases "list_ex (equiv_under (SetComparator env cf) key) (keys_at h cf)")
  case True
  with run have "h1 = h\<lparr>keys := (keys h)(cf \<mapsto> keys_at h cf)\<rparr>" "w1 = w"
    by (simp_all add: Rollback_result)
  with True show ?thesis
    by (intro exI [of _ "[]"]) (auto simp: keys_at_simps engine_reads_def)
next
  case False
  let ?g = "GetImpl env w (roptions h) cf key (callback h)"
  let ?e = "EvGetImpl (roptions h) cf key (callback h)"
  have self: "equiv_under (SetComparator env cf) key key"
    using irr by (simp add: equiv_under_self)
  from run s False have good: "ok (fst ?g) \<or> IsNotFound (fst ?g)"
    by (auto simp: Rollback_result split: if_splits)
  from run False good have w1: "w1 = w @ [?e]"
    and ks: "\<forall>c. keys_at h1 c = (if c = cf then keys_at h cf @ [key] else keys_at h c)"
    and rb: "keys_of (rollback_batch h1) = keys_of (rollback_batch h) @ [(cf, key)]"
    by (auto simp: Rollback_result keys_at_simps keys_of_def split: if_splits)
  show ?thesis
    using w1 ks rb self
    by (intro exI [of _ "[?e]"]) (auto simp: engine_reads_def list_ex_iff)
qed

lemma dispatch_success:
  assumes irr: "\<forall>cf k. \<not> SetComparator env cf k k"
    and run: "dispatch env r h w = (Returned s, h1, w1)" and s: "ok s"
  shows "\<exists>rs. w1 = w @ rs
      \<and> keys_of (rollback_batch h1) = keys_of (rollback_batch h) @ engine_reads rs
      \<and> (\<forall>c. set (keys_at h1 c) = set (keys_at h c) \<union> {k. (c, k) \<in> set (engine_reads rs)})
      \<and> (\<forall>c k. (c, k) \<in> set (key_of r) \<longrightarrow>
            list_ex (equiv_under (SetComparator env c) k) (keys_at h1 c))"
proof -
  have marker: ?thesis if "h1 = h" "w1 = w" "key_of r = []"
    using that by (intro exI [of _ "[]"]) (simp add: engine_reads_def)
  show ?thesis
  proof (cases r)
    case (Rec_Put cf key val)
    with run have "Rollback env cf key h w = (Returned s, h1, w1)" by (simp add: PutCF_def)
    from Rollback_success [OF irr this s] Rec_Put show ?thesis by auto
  next
    case (Rec_Delete cf key)
    with run have "Rollback env cf key h w = (Returned s, h1, w1)" by (simp add: DeleteCF_def)
    from Rollback_success [OF irr this s] Rec_Delete show ?thesis by auto
  next
    case (Rec_SingleDelete cf key)
    with run have "Rollback env cf key h w = (Returned s, h1, w1)"
      by (simp add: SingleDeleteCF_def)
    from Rollback_success [OF irr this s] Rec_SingleDelete show ?thesis by auto
  next
    case (Rec_Merge cf key val)
    with run have "Rollback env cf key h w = (Returned s, h1, w1)" by (simp add: MergeCF_def)
    from Rollback_success [OF irr this s] Rec_Merge show ?thesis by auto
  next
    case (Rec_LogData x)
    with run show ?thesis by (intro marker) simp_all
  next
    case Rec_Noop
    with run show ?thesis by (intro marker) (simp_all add: MarkNoop_def)
  next
    case Rec_BeginPrepare
    with run show ?thesis by (intro marker) (simp_all add: MarkBeginPrepare_def)
  next
    case (Rec_EndPrepare x y)
    with run show ?thesis by (intro marker) (simp_all add: MarkEndPrepare_def)
  next
    case (Rec_Commit x)
    with run show ?thesis by (intro marker) (simp_all add: MarkCommit_def)
  next
    case (Rec_Rollback x)
    with run s show ?thesis by (auto simp: MarkRollback_def InvalidArgument_def ok_def)
  qed
qed


text \<open>A traversal that succeeds has read every pair of the batch, or a key equivalent to
  it, and has a record in the rollback batch for every pair it read.\<close>

lemma Iterate_success:
  assumes irr: "\<forall>cf k. \<not> SetComparator env cf k k"
    and run: "Iterate env b h w = (Returned s, h', w')" and s: "ok s"
  shows "\<exists>rs. w' = w @ rs
      \<and> keys_of (rollback_batch h') = keys_of (rollback_batch h) @ engine_reads rs
      \<and> (\<forall>c. set (keys_at h' c) = set (keys_at h c) \<union> {k. (c, k) \<in> set (engine_reads rs)})
      \<and> (\<forall>c k. (c, k) \<in> set (keys_of b) \<longrightarrow>
            list_ex (equiv_under (SetComparator env c) k) (keys_at h' c))"
  using run
proof (induction b arbitrary: h w)
  case Nil
  then show ?case
    by (intro exI [of _ "[]"]) (simp add: engine_reads_def keys_of_def)
next
  case (Cons r b)
  obtain out h1 w1 where d: "dispatch env r h w = (out, h1, w1)"
    by (cases "dispatch env r h w") auto
  from Cons.prems d s obtain s1 where out: "out = Returned s1" and s1: "ok s1"
    and rest: "Iterate env b h1 w1 = (Returned s, h', w')"
    by (cases out) (auto split: if_splits)
  from dispatch_success [OF irr d [unfolded out] s1] obtain rs1 where a:
    "w1 = w @ rs1"
    "keys_of (rollback_batch h1) = keys_of (rollback_batch h) @ engine_reads rs1"
    "\<forall>c. set (keys_at h1 c) = set (keys_at h c) \<union> {k. (c, k) \<in> set (engine_reads rs1)}"
    "\<forall>c k. (c, k) \<in> set (key_of r) \<longrightarrow>
       list_ex (equiv_under (SetComparator env c) k) (keys_at h1 c)"
    by blast
  from Cons.IH [OF rest] obtain rs2 where b:
    "w' = w1 @ rs2"
    "keys_of (rollback_batch h') = keys_of (rollback_batch h1) @ engine_reads rs2"
    "\<forall>c. set (keys_at h' c) = set (keys_at h1 c) \<union> {k. (c, k) \<in> set (engine_reads rs2)}"
    "\<forall>c k. (c, k) \<in> set (keys_of b) \<longrightarrow>
       list_ex (equiv_under (SetComparator env c) k) (keys_at h' c)"
    by blast
  have app: "engine_reads (rs1 @ rs2) = engine_reads rs1 @ engine_reads rs2"
    by (simp add: engine_reads_def)
  have c1: "w' = w @ (rs1 @ rs2)" using a(1) b(1) by simp
  have c2: "keys_of (rollback_batch h') = keys_of (rollback_batch h) @ engine_reads (rs1 @ rs2)"
    using a(2) b(2) app by simp
  have c3: "\<forall>c. set (keys_at h' c) =
      set (keys_at h c) \<union> {k. (c, k) \<in> set (engine_reads (rs1 @ rs2))}"
    using a(3) b(3) app by auto
  have mono: "list_ex P (keys_at h1 c) \<Longrightarrow> list_ex P (keys_at h' c)" for P c
    using b(3) by (auto simp: list_ex_iff)
  have c4: "\<forall>c k. (c, k) \<in> set (keys_of (r # b)) \<longrightarrow>
       list_ex (equiv_under (SetComparator env c) k) (keys_at h' c)"
    using a(4) b(4) mono by (auto simp: keys_of_def)
  show ?case using c1 c2 c3 c4 by blast
qed

text \<open>The pairs read are pairs of the batch.\<close>

lemma Rollback_reads_own_key:
  "\<exists>rs. snd (snd (Rollback env cf key h w)) = w @ rs \<and> set (engine_reads rs) \<subseteq> {(cf, key)}"
  by (simp add: Rollback_result engine_reads_def)

lemma dispatch_reads_own_key:
  "\<exists>rs. snd (snd (dispatch env r h w)) = w @ rs \<and> set (engine_reads rs) \<subseteq> set (key_of r)"
proof (cases r)
  case (Rec_Put cf key val)
  then show ?thesis using Rollback_reads_own_key [of env cf key h w] by (simp add: PutCF_def)
next
  case (Rec_Delete cf key)
  then show ?thesis using Rollback_reads_own_key [of env cf key h w] by (simp add: DeleteCF_def)
next
  case (Rec_SingleDelete cf key)
  then show ?thesis
    using Rollback_reads_own_key [of env cf key h w] by (simp add: SingleDeleteCF_def)
next
  case (Rec_Merge cf key val)
  then show ?thesis using Rollback_reads_own_key [of env cf key h w] by (simp add: MergeCF_def)
qed (simp_all add: MarkNoop_def MarkBeginPrepare_def MarkEndPrepare_def MarkCommit_def
      MarkRollback_def engine_reads_def)

lemma Iterate_reads_keys_of_batch:
  "\<exists>rs. snd (snd (Iterate env b h w)) = w @ rs \<and> set (engine_reads rs) \<subseteq> set (keys_of b)"
proof (induction b arbitrary: h w)
  case Nil
  show ?case by (simp add: engine_reads_def)
next
  case (Cons r b)
  obtain out h1 w1 where d: "dispatch env r h w = (out, h1, w1)"
    by (cases "dispatch env r h w") auto
  from dispatch_reads_own_key [of env r h w] d obtain rs1 where
    r1: "w1 = w @ rs1" "set (engine_reads rs1) \<subseteq> set (key_of r)" by auto
  from Cons.IH [of h1 w1] obtain rs2 where
    r2: "snd (snd (Iterate env b h1 w1)) = w1 @ rs2" "set (engine_reads rs2) \<subseteq> set (keys_of b)"
    by auto
  have k: "set (keys_of (r # b)) = set (key_of r) \<union> set (keys_of b)"
    by (simp add: keys_of_def)
  have both: "set (engine_reads (rs1 @ rs2)) \<subseteq> set (keys_of (r # b))"
    using r1(2) r2(2) k by (auto simp: engine_reads_def)
  have one: "set (engine_reads rs1) \<subseteq> set (keys_of (r # b))"
    using r1(2) k by auto
  have stop: ?case if "snd (snd (Iterate env (r # b) h w)) = w1"
    using that r1(1) one by blast
  show ?case
  proof (cases out)
    case (Returned s1)
    show ?thesis
    proof (cases "ok s1")
      case True
      then have "snd (snd (Iterate env (r # b) h w)) = w @ (rs1 @ rs2)"
        using d Returned r1(1) r2(1) by simp
      with both show ?thesis by blast
    next
      case False
      then show ?thesis using d Returned by (intro stop) simp
    qed
  next
    case AssertionFailed
    then show ?thesis using d by (intro stop) simp
  next
    case NullDereference
    then show ?thesis using d by (intro stop) simp
  qed
qed

text \<open>With the engine's read as the spec describes it, every read puts into the rollback
  batch what the versions visible under the handler's bound ask for.\<close>

lemma Rollback_versioned:
  assumes eng: "\<forall>tr ro cf key cb.
      GetImpl env tr ro cf key cb = read_at_floor env (store tr) cf key (snap_seq_of cb)"
    and vis: "\<forall>tr. visible_at (snap_seq_of (callback h)) (store tr) = before"
  shows "\<exists>rs. snd (snd (Rollback env cf key h w)) = w @ rs
      \<and> callback (fst (snd (Rollback env cf key h w))) = callback h
      \<and> rollback_batch (fst (snd (Rollback env cf key h w))) =
          rollback_batch h @ map (restore env before) (engine_reads rs)"
proof -
  have g: "GetImpl env w (roptions h) cf key (callback h) =
      (case latest env before cf key of
         None \<Rightarrow> (Status kNotFound [], [])
       | Some v \<Rightarrow> (case ver_value v of
                     None \<Rightarrow> (Status kNotFound [], [])
                   | Some x \<Rightarrow> (OK, x)))"
    using eng vis by (simp add: read_at_floor_def)
  show ?thesis
    unfolding Rollback_result g
    by (simp add: engine_reads_def restore_def ok_def OK_def IsNotFound_def
        split: option.splits)
qed

lemma dispatch_versioned:
  assumes eng: "\<forall>tr ro cf key cb.
      GetImpl env tr ro cf key cb = read_at_floor env (store tr) cf key (snap_seq_of cb)"
    and vis: "\<forall>tr. visible_at (snap_seq_of (callback h)) (store tr) = before"
  shows "\<exists>rs. snd (snd (dispatch env r h w)) = w @ rs
      \<and> callback (fst (snd (dispatch env r h w))) = callback h
      \<and> rollback_batch (fst (snd (dispatch env r h w))) =
          rollback_batch h @ map (restore env before) (engine_reads rs)"
proof (cases r)
  case (Rec_Put cf key val)
  then show ?thesis
    using Rollback_versioned [OF eng vis, of cf key w] by (simp add: PutCF_def)
next
  case (Rec_Delete cf key)
  then show ?thesis
    using Rollback_versioned [OF eng vis, of cf key w] by (simp add: DeleteCF_def)
next
  case (Rec_SingleDelete cf key)
  then show ?thesis
    using Rollback_versioned [OF eng vis, of cf key w] by (simp add: SingleDeleteCF_def)
next
  case (Rec_Merge cf key val)
  then show ?thesis
    using Rollback_versioned [OF eng vis, of cf key w] by (simp add: MergeCF_def)
qed (simp_all add: MarkNoop_def MarkBeginPrepare_def MarkEndPrepare_def MarkCommit_def
      MarkRollback_def engine_reads_def)

lemma Iterate_versioned:
  assumes eng: "\<forall>tr ro cf key cb.
      GetImpl env tr ro cf key cb = read_at_floor env (store tr) cf key (snap_seq_of cb)"
    and vis: "\<forall>tr. visible_at (snap_seq_of (callback h)) (store tr) = before"
  shows "\<exists>rs. snd (snd (Iterate env b h w)) = w @ rs
      \<and> callback (fst (snd (Iterate env b h w))) = callback h
      \<and> rollback_batch (fst (snd (Iterate env b h w))) =
          rollback_batch h @ map (restore env before) (engine_reads rs)"
  using vis
proof (induction b arbitrary: h w)
  case Nil
  show ?case by (simp add: engine_reads_def)
next
  case (Cons r b)
  obtain out h1 w1 where d: "dispatch env r h w = (out, h1, w1)"
    by (cases "dispatch env r h w") auto
  from dispatch_versioned [OF eng Cons.prems, of r w] d obtain rs1 where a:
    "w1 = w @ rs1" "callback h1 = callback h"
    "rollback_batch h1 = rollback_batch h @ map (restore env before) (engine_reads rs1)"
    by auto
  have vis1: "\<forall>tr. visible_at (snap_seq_of (callback h1)) (store tr) = before"
    using Cons.prems a(2) by simp
  from Cons.IH [OF vis1, of w1] obtain rs2 where b:
    "snd (snd (Iterate env b h1 w1)) = w1 @ rs2"
    "callback (fst (snd (Iterate env b h1 w1))) = callback h1"
    "rollback_batch (fst (snd (Iterate env b h1 w1))) =
       rollback_batch h1 @ map (restore env before) (engine_reads rs2)"
    by auto
  have app: "engine_reads (rs1 @ rs2) = engine_reads rs1 @ engine_reads rs2"
    by (simp add: engine_reads_def)
  have stop: ?case if "Iterate env (r # b) h w = (out, h1, w1)"
    using that a by (intro exI [of _ rs1]) simp
  show ?case
  proof (cases out)
    case (Returned s1)
    show ?thesis
    proof (cases "ok s1")
      case True
      then have "Iterate env (r # b) h w = Iterate env b h1 w1"
        using d Returned by simp
      then show ?thesis
        using a b app by (intro exI [of _ "rs1 @ rs2"]) simp
    next
      case False
      then show ?thesis using d Returned by (intro stop) simp
    qed
  next
    case AssertionFailed
    then show ?thesis using d by (intro stop) simp
  next
    case NullDereference
    then show ?thesis using d by (intro stop) simp
  qed
qed

text \<open>A rollback whose traversal succeeds writes the rollback batch next.\<close>

lemma RollbackInternal_first_write:
  assumes it: "Iterate env (GetWriteBatch (txn_write_batch txn))
               (RollbackWriteBatchBuilder_new (GetId txn - 1) []) w = (Returned s, h1, w1)"
    and s: "ok s"
    and early: "asserts_on env \<longrightarrow> GetId txn \<noteq> kMaxSequenceNumber env \<and> 0 < GetId txn"
  shows "\<exists>call rest. snd (RollbackInternal env txn w) = w1 @ EvWriteImpl call # rest
           \<and> wc_my_batch call = rollback_batch h1 @ [Rec_Rollback (txn_name txn)]"
proof -
  define call1 where "call1 = \<lparr>wc_write_options = txn_write_options txn,
                  wc_my_batch = rollback_batch h1 @ [Rec_Rollback (txn_name txn)],
                  wc_callback = None, wc_log_used = False, wc_log_ref = 0,
                  wc_disable_memtable = False, wc_seq_used = kMaxSequenceNumber env,
                  wc_batch_cnt = 1,
                  wc_pre_release_callback =
                    (if two_write_queues env then None
                     else Some (WritePreparedCommitEntryPreReleaseCallback
                                  (kMaxSequenceNumber env) 0 1 None))\<rparr>"
  define r1 where "r1 = WriteImpl env w1 call1"
  define prepare_seq where "prepare_seq = seq_after (kMaxSequenceNumber env) r1"
  define call2 where "call2 = \<lparr>wc_write_options = txn_write_options txn,
                  wc_my_batch = [Rec_LogData [], Rec_Noop],
                  wc_callback = None, wc_log_used = False, wc_log_ref = 0,
                  wc_disable_memtable = True, wc_seq_used = prepare_seq,
                  wc_batch_cnt = 1,
                  wc_pre_release_callback =
                    Some (WritePreparedCommitEntryPreReleaseCallback prepare_seq 1 0 (Some True))\<rparr>"
  define r2 where "r2 = WriteImpl env (w1 @ [EvWriteImpl call1]) call2"
  define rollback_seq where "rollback_seq = seq_after prepare_seq r2"
  note run = RollbackInternal_run [OF it call1_def r1_def prepare_seq_def call2_def r2_def
      rollback_seq_def]
  have b1: "wc_my_batch call1 = rollback_batch h1 @ [Rec_Rollback (txn_name txn)]"
    by (simp add: call1_def)
  have no_early: "\<not> (assert_fails env (GetId txn \<noteq> kMaxSequenceNumber env)
                    \<or> assert_fails env (GetId txn > 0))"
    using early by (auto simp: assert_fails_def)
  have "snd (RollbackInternal env txn w) = w1 @ EvWriteImpl call1 # []
      \<or> snd (RollbackInternal env txn w) =
           w1 @ EvWriteImpl call1 # [EvRollbackPrepared (GetId txn) prepare_seq]
      \<or> snd (RollbackInternal env txn w) = w1 @ EvWriteImpl call1 # [EvWriteImpl call2]
      \<or> snd (RollbackInternal env txn w) =
           w1 @ EvWriteImpl call1 # [EvWriteImpl call2,
                 EvRollbackPrepared (GetId txn) rollback_seq]"
    unfolding run using no_early s by simp
  with b1 show ?thesis by blast
qed

lemma RollbackInternal_extends_traversal:
  assumes it: "Iterate env (GetWriteBatch (txn_write_batch txn))
               (RollbackWriteBatchBuilder_new (GetId txn - 1) []) w = (out, h1, w1)"
    and early: "asserts_on env \<longrightarrow> GetId txn \<noteq> kMaxSequenceNumber env \<and> 0 < GetId txn"
  shows "\<exists>rest. snd (RollbackInternal env txn w) = w1 @ rest"
proof -
  define call1 where "call1 = \<lparr>wc_write_options = txn_write_options txn,
                  wc_my_batch = rollback_batch h1 @ [Rec_Rollback (txn_name txn)],
                  wc_callback = None, wc_log_used = False, wc_log_ref = 0,
                  wc_disable_memtable = False, wc_seq_used = kMaxSequenceNumber env,
                  wc_batch_cnt = 1,
                  wc_pre_release_callback =
                    (if two_write_queues env then None
                     else Some (WritePreparedCommitEntryPreReleaseCallback
                                  (kMaxSequenceNumber env) 0 1 None))\<rparr>"
  define r1 where "r1 = WriteImpl env w1 call1"
  define prepare_seq where "prepare_seq = seq_after (kMaxSequenceNumber env) r1"
  define call2 where "call2 = \<lparr>wc_write_options = txn_write_options txn,
                  wc_my_batch = [Rec_LogData [], Rec_Noop],
                  wc_callback = None, wc_log_used = False, wc_log_ref = 0,
                  wc_disable_memtable = True, wc_seq_used = prepare_seq,
                  wc_batch_cnt = 1,
                  wc_pre_release_callback =
                    Some (WritePreparedCommitEntryPreReleaseCallback prepare_seq 1 0 (Some True))\<rparr>"
  define r2 where "r2 = WriteImpl env (w1 @ [EvWriteImpl call1]) call2"
  define rollback_seq where "rollback_seq = seq_after prepare_seq r2"
  note run = RollbackInternal_run [OF it call1_def r1_def prepare_seq_def call2_def r2_def
      rollback_seq_def]
  have no_early: "\<not> (assert_fails env (GetId txn \<noteq> kMaxSequenceNumber env)
                    \<or> assert_fails env (GetId txn > 0))"
    using early by (auto simp: assert_fails_def)
  have "snd (RollbackInternal env txn w) = w1 @ []
      \<or> snd (RollbackInternal env txn w) = w1 @ [EvWriteImpl call1]
      \<or> snd (RollbackInternal env txn w) =
           w1 @ [EvWriteImpl call1, EvRollbackPrepared (GetId txn) prepare_seq]
      \<or> snd (RollbackInternal env txn w) = w1 @ [EvWriteImpl call1, EvWriteImpl call2]
      \<or> snd (RollbackInternal env txn w) =
           w1 @ [EvWriteImpl call1, EvWriteImpl call2,
                 EvRollbackPrepared (GetId txn) rollback_seq]"
    unfolding run using no_early by (simp split: Outcome.splits)
  then show ?thesis by blast
qed

lemma latest_comparator:
  "SetComparator env' = SetComparator env \<Longrightarrow> latest env' vs cf key = latest env vs cf key"
  by (induction vs) simp_all

text \<open>
  C3. Let the order of the keys of every column family be irreflexive.

  At most once: in one \<^verbatim>\<open>RollbackInternal\<close> no (column family, key) pair is read
  twice, however often the batch mutates it, and every read is made with the callback
  whose bound is the id of the transaction minus one. The rollback batch \<open>rb\<close> that the
  traversal builds holds at most one record for each pair, and each of its records is
  the answer of such a read of its own key: a \<^verbatim>\<open>Put\<close> of the value the read found,
  or a \<^verbatim>\<open>Delete\<close> where it found nothing. Every write of the rollback carries
  either \<open>rb\<close> with the rollback marker or the empty batch of the second write.

  Read back: the pairs read are pairs of the batch. When the traversal succeeds, every
  pair that the batch mutates, by \<^verbatim>\<open>Put\<close>, \<^verbatim>\<open>Delete\<close>, \<^verbatim>\<open>SingleDelete\<close> or
  \<^verbatim>\<open>Merge\<close>, has been read, itself or a key of the batch that the order of its
  column family does not tell from it, and \<open>rb\<close> holds exactly one record for each pair
  read, in the order of the reads; where the order tells any two different keys apart,
  the pairs read are exactly the pairs of the batch. Unless an assertion on the id stops
  it, the rollback begins with the reads of the traversal, and when the traversal
  succeeds it writes \<open>rb\<close> with the rollback marker next.

  The value from before the transaction: let the engine read as the spec describes it,
  from a store whose versions below the id of the transaction are \<open>before\<close> at every
  moment, and let the id be positive. Then \<open>rb\<close> is, for each pair read, what
  \<open>restore\<close> asks for: a \<^verbatim>\<open>Put\<close> of the latest value written before the
  transaction, or a \<^verbatim>\<open>Delete\<close> where the key did not exist then. The versions at
  the id and above, which are those the transaction wrote itself, play no part.
\<close>

theorem RollbackInternal_reads_each_key_once:
  assumes irr: "\<forall>cf k. \<not> SetComparator env cf k k"
  shows
    "let snap = GetId txn - 1;
         ro = \<lparr>snapshot = None\<rparr>;
         cb = WritePreparedTxnReadCallback snap;
         batch = GetWriteBatch (txn_write_batch txn);
         it = Iterate env batch (RollbackWriteBatchBuilder_new snap []) w;
         rb = rollback_batch (fst (snd it));
         reads = engine_reads (drop (length w) (snd (snd it)));
         res = RollbackInternal env txn w;
         new = drop (length w) (snd res);
         entered = (asserts_on env \<longrightarrow> GetId txn \<noteq> kMaxSequenceNumber env \<and> 0 < GetId txn);
         traversed = (\<exists>s. fst it = Returned s \<and> ok s)
     in distinct (engine_reads new)
      \<and> (\<forall>e \<in> set new. read_of e \<noteq> [] \<longrightarrow> (\<exists>cf key. e = EvGetImpl ro cf key cb))
      \<and> distinct (keys_of rb)
      \<and> (\<forall>r \<in> set rb. \<exists>pre post cf key.
            snd (snd it) = pre @ EvGetImpl ro cf key cb # post \<and> length w \<le> length pre
            \<and> ((ok (fst (GetImpl env pre ro cf key cb))
                  \<and> r = Rec_Put cf key (snd (GetImpl env pre ro cf key cb)))
               \<or> (IsNotFound (fst (GetImpl env pre ro cf key cb)) \<and> r = Rec_Delete cf key)))
      \<and> (\<forall>c \<in> set (engine_writes new).
            (wc_my_batch c = rb @ [Rec_Rollback (txn_name txn)]
             \<or> wc_my_batch c = [Rec_LogData [], Rec_Noop])
            \<and> distinct (keys_of (wc_my_batch c)))
      \<and> set reads \<subseteq> set (keys_of batch)
      \<and> (traversed \<longrightarrow>
            (\<forall>cf k. (cf, k) \<in> set (keys_of batch) \<longrightarrow>
               (\<exists>k'. (cf, k') \<in> set reads \<and> equiv_under (SetComparator env cf) k k'))
          \<and> keys_of rb = reads)
      \<and> (traversed \<and> (\<forall>cf a b. a \<noteq> b \<longrightarrow> SetComparator env cf a b \<or> SetComparator env cf b a)
            \<longrightarrow> set reads = set (keys_of batch))
      \<and> (entered \<longrightarrow> (\<exists>rest. snd res = snd (snd it) @ rest))
      \<and> (entered \<and> traversed \<longrightarrow>
            (\<exists>call rest. snd res = snd (snd it) @ EvWriteImpl call # rest
               \<and> wc_my_batch call = rb @ [Rec_Rollback (txn_name txn)]))
      \<and> (\<forall>store before.
            (\<forall>tr ro' cf key cb'. GetImpl env tr ro' cf key cb' =
                read_at_floor env (store tr) cf key (snap_seq_of cb'))
            \<and> 0 < GetId txn
            \<and> (\<forall>tr. versions_before (GetId txn) (store tr) = before)
            \<longrightarrow> rb = map (restore env before) reads)"
proof -
  let ?h0 = "RollbackWriteBatchBuilder_new (GetId txn - 1) []"
  let ?ro = "\<lparr>snapshot = None\<rparr>"
  let ?cb = "WritePreparedTxnReadCallback (GetId txn - 1)"
  let ?b = "GetWriteBatch (txn_write_batch txn)"
  let ?it = "Iterate env ?b ?h0 w"
  let ?res = "RollbackInternal env txn w"
  let ?lt = "SetComparator env"
  have h0: "roptions ?h0 = ?ro" "callback ?h0 = ?cb" "rollback_batch ?h0 = []"
    "\<And>c. keys_at ?h0 c = []"
    by (simp_all add: RollbackWriteBatchBuilder_new_def keys_at_def)
  have it: "?it = (fst ?it, fst (snd ?it), snd (snd ?it))" by simp
  from Iterate_grows [OF irr, of ?h0 w ?b]
  obtain rs added where g:
    "snd (snd ?it) = w @ rs" "rollback_batch (fst (snd ?it)) = added"
    "distinct (engine_reads rs)" "distinct (keys_of added)"
    "\<forall>e \<in> set rs. \<exists>cf key. e = EvGetImpl ?ro cf key ?cb"
    "\<forall>r \<in> set added. read_back env w ?ro ?cb (snd (snd ?it)) r"
    unfolding grows_def h0 by auto
  have reads: "drop (length w) (snd (snd ?it)) = rs" using g(1) by simp
  from RollbackInternal_traces [OF it] obtain call1 call2 seq where
    b1: "wc_my_batch call1 = added @ [Rec_Rollback (txn_name txn)]"
    and b2: "wc_my_batch call2 = [Rec_LogData [], Rec_Noop]"
    and shape: "snd ?res = w
            \<or> snd ?res = w @ rs
            \<or> snd ?res = w @ rs @ [EvWriteImpl call1]
            \<or> snd ?res = w @ rs @ [EvWriteImpl call1, EvRollbackPrepared (GetId txn) seq]
            \<or> snd ?res = w @ rs @ [EvWriteImpl call1, EvWriteImpl call2]
            \<or> snd ?res = w @ rs @ [EvWriteImpl call1, EvWriteImpl call2,
                                   EvRollbackPrepared (GetId txn) seq]"
    unfolding g(1,2) by auto
  define new where "new = drop (length w) (snd ?res)"
  from shape have new: "new = [] \<or> new = rs \<or> new = rs @ [EvWriteImpl call1]
      \<or> new = rs @ [EvWriteImpl call1, EvRollbackPrepared (GetId txn) seq]
      \<or> new = rs @ [EvWriteImpl call1, EvWriteImpl call2]
      \<or> new = rs @ [EvWriteImpl call1, EvWriteImpl call2, EvRollbackPrepared (GetId txn) seq]"
    unfolding new_def by auto
  have ers: "engine_writes rs = []"
    using g(5) by (auto simp: engine_writes_def)
  have k1: "keys_of (added @ [Rec_Rollback (txn_name txn)]) = keys_of added"
    "keys_of [Rec_LogData [], Rec_Noop] = []"
    by (simp_all add: keys_of_def)
  have p1: "distinct (engine_reads new)"
    using new g(3) by (auto simp: engine_reads_def)
  have p2: "\<forall>e \<in> set new. read_of e \<noteq> [] \<longrightarrow> (\<exists>cf key. e = EvGetImpl ?ro cf key ?cb)"
    using new g(5) by auto
  have p3: "\<forall>r \<in> set added. \<exists>pre post cf key.
            snd (snd ?it) = pre @ EvGetImpl ?ro cf key ?cb # post \<and> length w \<le> length pre
            \<and> ((ok (fst (GetImpl env pre ?ro cf key ?cb))
                  \<and> r = Rec_Put cf key (snd (GetImpl env pre ?ro cf key ?cb)))
               \<or> (IsNotFound (fst (GetImpl env pre ?ro cf key ?cb)) \<and> r = Rec_Delete cf key))"
    using g(6) unfolding read_back_def by simp
  have p4: "\<forall>c \<in> set (engine_writes new).
            (wc_my_batch c = added @ [Rec_Rollback (txn_name txn)]
             \<or> wc_my_batch c = [Rec_LogData [], Rec_Noop])
            \<and> distinct (keys_of (wc_my_batch c))"
  proof
    fix c assume "c \<in> set (engine_writes new)"
    then have "c = call1 \<or> c = call2"
      using new ers by (auto simp: engine_writes_def)
    then show "(wc_my_batch c = added @ [Rec_Rollback (txn_name txn)]
             \<or> wc_my_batch c = [Rec_LogData [], Rec_Noop])
            \<and> distinct (keys_of (wc_my_batch c))"
      using b1 b2 k1 g(4) by auto
  qed
  have q1: "set (engine_reads rs) \<subseteq> set (keys_of ?b)"
    using Iterate_reads_keys_of_batch [of env ?b ?h0 w] g(1) by auto
  have q2: "(\<forall>cf k. (cf, k) \<in> set (keys_of ?b) \<longrightarrow>
               (\<exists>k'. (cf, k') \<in> set (engine_reads rs) \<and> equiv_under (?lt cf) k k'))
          \<and> keys_of added = engine_reads rs"
    if trav: "\<exists>s. fst ?it = Returned s \<and> ok s"
  proof -
    from trav obtain s where s: "fst ?it = Returned s" "ok s" by blast
    have run: "?it = (Returned s, fst (snd ?it), snd (snd ?it))"
      using s(1) by (metis prod.collapse)
    from Iterate_success [OF irr run s(2)] obtain rs' where a:
      "snd (snd ?it) = w @ rs'"
      "keys_of (rollback_batch (fst (snd ?it))) = keys_of (rollback_batch ?h0) @ engine_reads rs'"
      "\<forall>c. set (keys_at (fst (snd ?it)) c) =
            set (keys_at ?h0 c) \<union> {k. (c, k) \<in> set (engine_reads rs')}"
      "\<forall>c k. (c, k) \<in> set (keys_of ?b) \<longrightarrow>
            list_ex (equiv_under (?lt c) k) (keys_at (fst (snd ?it)) c)"
      by blast
    have same: "rs' = rs" using a(1) g(1) by simp
    have ks: "\<forall>c. set (keys_at (fst (snd ?it)) c) = {k. (c, k) \<in> set (engine_reads rs)}"
      using a(3) same by (simp add: h0)
    have cover: "\<exists>k'. (cf, k') \<in> set (engine_reads rs) \<and> equiv_under (?lt cf) k k'"
      if "(cf, k) \<in> set (keys_of ?b)" for cf k
    proof -
      from a(4) that have "list_ex (equiv_under (?lt cf) k) (keys_at (fst (snd ?it)) cf)"
        by blast
      then obtain k' where "k' \<in> set (keys_at (fst (snd ?it)) cf)" "equiv_under (?lt cf) k k'"
        by (auto simp: list_ex_iff)
      with ks show ?thesis by auto
    qed
    have "keys_of added = engine_reads rs"
      using a(2) same g(2) by (simp add: h0 keys_of_def)
    with cover show ?thesis by blast
  qed
  have q3: "set (engine_reads rs) = set (keys_of ?b)"
    if trav: "\<exists>s. fst ?it = Returned s \<and> ok s"
      and sep: "\<forall>cf a b. a \<noteq> b \<longrightarrow> ?lt cf a b \<or> ?lt cf b a"
  proof
    show "set (engine_reads rs) \<subseteq> set (keys_of ?b)" by (rule q1)
    show "set (keys_of ?b) \<subseteq> set (engine_reads rs)"
    proof
      fix p assume p: "p \<in> set (keys_of ?b)"
      obtain cf k where pk: "p = (cf, k)" by (cases p)
      from q2 [OF trav] p pk obtain k' where
        k': "(cf, k') \<in> set (engine_reads rs)" "equiv_under (?lt cf) k k'" by blast
      from k'(2) sep have "k = k'" by (auto simp: equiv_under_def)
      with k'(1) pk show "p \<in> set (engine_reads rs)" by simp
    qed
  qed
  have q4: "\<exists>rest. snd ?res = snd (snd ?it) @ rest"
    if "asserts_on env \<longrightarrow> GetId txn \<noteq> kMaxSequenceNumber env \<and> 0 < GetId txn"
    using RollbackInternal_extends_traversal [OF it that] .
  have q5: "\<exists>call rest. snd ?res = snd (snd ?it) @ EvWriteImpl call # rest
               \<and> wc_my_batch call = added @ [Rec_Rollback (txn_name txn)]"
    if ent: "asserts_on env \<longrightarrow> GetId txn \<noteq> kMaxSequenceNumber env \<and> 0 < GetId txn"
      and trav: "\<exists>s. fst ?it = Returned s \<and> ok s"
  proof -
    from trav obtain s where s: "fst ?it = Returned s" "ok s" by blast
    have run: "?it = (Returned s, fst (snd ?it), snd (snd ?it))"
      using s(1) by (metis prod.collapse)
    from RollbackInternal_first_write [OF run s(2) ent] show ?thesis
      unfolding g(2) .
  qed
  have q6: "added = map (restore env before) (engine_reads rs)"
    if eng: "\<forall>tr ro' cf key cb'. GetImpl env tr ro' cf key cb' =
                read_at_floor env (store tr) cf key (snap_seq_of cb')"
      and pos: "0 < GetId txn"
      and stable: "\<forall>tr. versions_before (GetId txn) (store tr) = before"
    for store before
  proof -
    have vis: "\<forall>tr. visible_at (snap_seq_of (callback ?h0)) (store tr) = before"
      using stable pos by (simp add: h0 visible_at_def versions_before_def word_le_pred_iff)
    from Iterate_versioned [OF eng vis, of ?b w] obtain rs' where a:
      "snd (snd ?it) = w @ rs'"
      "rollback_batch (fst (snd ?it)) =
         rollback_batch ?h0 @ map (restore env before) (engine_reads rs')"
      by blast
    have "rs' = rs" using a(1) g(1) by simp
    with a(2) g(2) show ?thesis by (simp add: h0)
  qed
  show ?thesis
    unfolding Let_def new_def [symmetric] g(2) reads
    apply (intro conjI)
    subgoal by (rule p1)
    subgoal by (rule p2)
    subgoal by (rule g(4))
    subgoal by (rule p3)
    subgoal by (rule p4)
    subgoal by (rule q1)
    subgoal using q2 by blast
    subgoal using q3 by blast
    subgoal using q4 by blast
    subgoal using q5 by blast
    subgoal using q6 by blast
    done
qed

theorem RollbackInternal_reads_each_key_once_witness:
  "distinct (engine_reads (snd (RollbackInternal (example_store_engine True example_versions)
      (example_txn [Rec_Put 0 ''a'' ''1'', Rec_Put 0 ''a'' ''2'', Rec_Merge 0 ''bb'' ''x'',
                    Rec_Put 0 ''a'' ''3''] True [] False) [])))
   \<and> snd (snd (Iterate (example_store_engine True example_versions)
      [Rec_Put 0 ''a'' ''1'', Rec_Put 0 ''a'' ''2'', Rec_Merge 0 ''bb'' ''x'', Rec_Put 0 ''a'' ''3'']
      (RollbackWriteBatchBuilder_new 4 []) [])) =
     [EvGetImpl \<lparr>snapshot = None\<rparr> 0 ''a'' (WritePreparedTxnReadCallback 4),
      EvGetImpl \<lparr>snapshot = None\<rparr> 0 ''bb'' (WritePreparedTxnReadCallback 4)]
   \<and> rollback_batch (fst (snd (Iterate (example_store_engine True example_versions)
      [Rec_Put 0 ''a'' ''1'', Rec_Put 0 ''a'' ''2'', Rec_Merge 0 ''bb'' ''x'', Rec_Put 0 ''a'' ''3'']
      (RollbackWriteBatchBuilder_new 4 []) []))) =
     [Rec_Put 0 ''a'' ''old'', Rec_Delete 0 ''bb'']
   \<and> (\<exists>call rest.
        snd (RollbackInternal (example_store_engine True example_versions)
          (example_txn [Rec_Put 0 ''a'' ''1'', Rec_Put 0 ''a'' ''2'', Rec_Merge 0 ''bb'' ''x'',
                        Rec_Put 0 ''a'' ''3''] True [] False) []) =
          [EvGetImpl \<lparr>snapshot = None\<rparr> 0 ''a'' (WritePreparedTxnReadCallback 4),
           EvGetImpl \<lparr>snapshot = None\<rparr> 0 ''bb'' (WritePreparedTxnReadCallback 4)]
          @ EvWriteImpl call # rest
        \<and> wc_my_batch call =
            [Rec_Put 0 ''a'' ''old'', Rec_Delete 0 ''bb'', Rec_Rollback ''t1''])"
proof -
  let ?B = "[Rec_Put 0 ''a'' ''1'', Rec_Put 0 ''a'' ''2'', Rec_Merge 0 ''bb'' ''x'',
             Rec_Put 0 ''a'' ''3'']"
  let ?T = "example_txn ?B True [] False"
  let ?E = "example_store_engine True example_versions"
  let ?before = "[Version 3 0 ''a'' (Some ''old'')]"
  let ?tr = "[EvGetImpl \<lparr>snapshot = None\<rparr> 0 ''a'' (WritePreparedTxnReadCallback 4),
              EvGetImpl \<lparr>snapshot = None\<rparr> 0 ''bb'' (WritePreparedTxnReadCallback 4)]"
  have cmp: "SetComparator ?E = SetComparator (example_engine True False OK OK)"
    by (simp add: example_store_engine_def)
  have irr: "\<forall>cf k. \<not> SetComparator ?E cf k k"
    by (simp add: example_store_engine_def example_engine_def)
  have id: "GetId ?T - 1 = 4" "GetWriteBatch (txn_write_batch ?T) = ?B"
    by (simp_all add: GetId_def example_txn_def)
  have misc: "asserts_on ?E" "GetId ?T \<noteq> kMaxSequenceNumber ?E" "0 < GetId ?T"
    "txn_name ?T = ''t1''"
    by (simp_all add: GetId_def example_txn_def example_store_engine_def example_engine_def)
  have eng: "\<forall>tr ro' cf key cb'. GetImpl ?E tr ro' cf key cb' =
      read_at_floor ?E ((\<lambda>tr. example_versions) tr) cf key (snap_seq_of cb')"
  proof -
    have "read_at_floor ?E st cf key b =
        read_at_floor (example_engine True False OK OK) st cf key b" for st cf key b
      by (simp add: read_at_floor_def latest_comparator [OF cmp])
    then show ?thesis
      by (simp add: example_store_engine_def)
  qed
  have stable: "\<forall>tr. versions_before (GetId ?T) ((\<lambda>tr. example_versions) tr) = ?before"
    by (simp add: versions_before_def example_versions_def GetId_def example_txn_def)
  note t = RollbackInternal_reads_each_key_once [OF irr, where txn = ?T and w = "[]",
      unfolded Let_def id]
  have trace: "snd (snd (Iterate ?E ?B (RollbackWriteBatchBuilder_new 4 []) [])) = ?tr"
    and outcome: "fst (Iterate ?E ?B (RollbackWriteBatchBuilder_new 4 []) []) =
      Returned (Status kOk [])"
    by (simp_all add: example_store_engine_def example_engine_def example_versions_def
        read_at_floor_def visible_at_def equiv_under_def Let_def assert_fails_def
        RollbackWriteBatchBuilder_new_def PutCF_def MergeCF_def Rollback_def
        CFKeys_insert_def keys_at_def WriteBatch_Put_def WriteBatch_Delete_def
        ok_def OK_def IsNotFound_def)
  have a: "distinct (engine_reads (snd (RollbackInternal ?E ?T [])))"
    using t [THEN conjunct1] by simp
  note last = t [THEN conjunct2, THEN conjunct2, THEN conjunct2, THEN conjunct2, THEN conjunct2,
        THEN conjunct2, THEN conjunct2, THEN conjunct2, THEN conjunct2, THEN conjunct2,
        rule_format, of "\<lambda>tr. example_versions" ?before,
        OF conjI [OF eng conjI [OF misc(3) stable]]]
  have rb0: "rollback_batch (fst (snd (Iterate ?E ?B (RollbackWriteBatchBuilder_new 4 []) []))) =
      map (restore ?E ?before) (engine_reads ?tr)"
    using last unfolding trace by (simp del: Iterate.simps)
  have rb: "rollback_batch (fst (snd (Iterate ?E ?B (RollbackWriteBatchBuilder_new 4 []) []))) =
      [Rec_Put 0 ''a'' ''old'', Rec_Delete 0 ''bb'']"
    unfolding rb0
    by (simp add: engine_reads_def restore_def equiv_under_def example_store_engine_def
        example_engine_def)
  have trav: "\<exists>s. fst (Iterate ?E ?B (RollbackWriteBatchBuilder_new 4 []) []) = Returned s \<and> ok s"
    using outcome by (simp add: ok_def)
  note wr = t [THEN conjunct2, THEN conjunct2, THEN conjunct2, THEN conjunct2, THEN conjunct2,
        THEN conjunct2, THEN conjunct2, THEN conjunct2, THEN conjunct2, THEN conjunct1,
        rule_format, OF conjI [OF _ trav]]
  have w: "\<exists>call rest. snd (RollbackInternal ?E ?T []) = ?tr @ EvWriteImpl call # rest
      \<and> wc_my_batch call = [Rec_Put 0 ''a'' ''old'', Rec_Delete 0 ''bb'', Rec_Rollback ''t1'']"
    using wr misc unfolding trace rb by (simp del: Iterate.simps)
  show ?thesis using a trace rb w by blast
qed

end
